theory Spec2Isabelle
  imports Main "HOL-Library.Word" "HOL-Library.Multiset"
begin

unbundle bit_operations_syntax

section \<open>Data model of the chess engine (src/app.js)\<close>

text \<open>
  A board cell of the source is \<open>null\<close> or one of the twelve one-letter strings
  \<open>PNBRQKpnbrqk\<close>; upper case is white. The letters are an enumeration, modelled as a
  colour and a piece type. \<open>toLowerCase\<close> of a piece is its type, \<open>colorOf\<close> its colour.
  Squares are JavaScript numbers; offsets are added and compared with 0 and 64, so they are
  \<open>int\<close> here.
\<close>

datatype color = White | Black

datatype ptype = Pawn | Knight | Bishop | Rook | Queen | King

datatype piece = Piece color ptype

datatype castle_side = KSide | QSide

type_synonym cells = "piece option list"

record rights =
  cK :: bool
  cQ :: bool
  ck :: bool
  cq :: bool

record move =
  m_from :: int
  m_to :: int
  m_piece :: piece
  captured :: "piece option"
  capturedIndex :: "int option"
  promotion :: "ptype option"
  isCastle :: bool
  castleSide :: "castle_side option"
  isEnPassant :: bool
  isDoublePawn :: bool

record position =
  board :: cells
  turn :: color
  castling :: rights
  ep :: "int option"
  halfmove :: nat
  fullmove :: nat
  wKing :: int
  bKing :: int
  hash :: "64 word"
  rep :: "64 word \<Rightarrow> nat option"
  hashLine :: "64 word list"

record undo =
  u_move :: move
  prevTurn :: color
  prevCastling :: rights
  prevEp :: "int option"
  prevHalfmove :: nat
  prevFullmove :: nat
  prevHash :: "64 word"
  prevWKing :: int
  prevBKing :: int
  u_captured :: "piece option"

definition fileOf :: "int \<Rightarrow> int" where
  \<comment> \<open>\<open>index & 7\<close>\<close>
  "fileOf i = i mod 8"

definition rankOf :: "int \<Rightarrow> int" where
  \<comment> \<open>\<open>index >> 3\<close>\<close>
  "rankOf i = i div 8"

fun colorOf :: "piece \<Rightarrow> color" where
  "colorOf (Piece c t) = c"

fun typeOf :: "piece \<Rightarrow> ptype" where
  \<comment> \<open>\<open>piece.toLowerCase()\<close>\<close>
  "typeOf (Piece c t) = t"

fun opponent :: "color \<Rightarrow> color" where
  "opponent White = Black"
| "opponent Black = White"

definition cell :: "cells \<Rightarrow> int \<Rightarrow> piece option" where
  \<comment> \<open>\<open>this.board[i]\<close>: reading outside the array gives \<open>undefined\<close>, which is falsy like \<open>null\<close>\<close>
  "cell b i = (if 0 \<le> i \<and> i < int (length b) then b ! nat i else None)"

definition put :: "cells \<Rightarrow> int \<Rightarrow> piece option \<Rightarrow> cells" where
  \<comment> \<open>\<open>this.board[i] = v\<close> for an index inside the array (every write of the engine is)\<close>
  "put b i v = (if 0 \<le> i \<and> i < int (length b) then b[nat i := v] else b)"

subsection \<open>Zobrist keys\<close>

text \<open>
  \<open>mulberry32(seed)\<close> keeps a counter \<open>t\<close> that grows by \<open>0x6d2b79f5\<close> at every call and
  scrambles it with 32-bit operations (\<open>Math.imul\<close>, \<open>^\<close>, \<open>|\<close>, \<open>>>>\<close>), so the value of the
  \<open>n\<close>-th call is a function of \<open>seed + n * 0x6d2b79f5\<close> modulo \<open>2^32\<close>. \<open>randU32\<close> scales
  the quotient back to the 32-bit value, and \<open>randU64\<close> draws the high word first.
  The table is filled in the order piece[0..11][0..63], side, castle[0..15], epFile[0..7].
\<close>

definition mulberry32_out :: "32 word \<Rightarrow> 32 word" where
  "mulberry32_out t =
     (let x = (t XOR drop_bit 15 t) * (t OR 1);
          x = x XOR (x + (x XOR drop_bit 7 x) * (x OR 61))
      in x XOR drop_bit 14 x)"

definition randU32_nth :: "nat \<Rightarrow> 32 word" where
  \<comment> \<open>the value of the \<open>n\<close>-th call (\<open>n \<ge> 1\<close>) of the generator seeded with \<open>0xC0FFEE\<close>\<close>
  "randU32_nth n = mulberry32_out (0xC0FFEE + of_nat n * 0x6d2b79f5)"

definition randU64_nth :: "nat \<Rightarrow> 64 word" where
  \<comment> \<open>the \<open>k\<close>-th 64-bit key (\<open>k \<ge> 0\<close>): \<open>(hi << 32n) ^ lo\<close>\<close>
  "randU64_nth k =
     push_bit 32 (ucast (randU32_nth (2 * k + 1))) XOR ucast (randU32_nth (2 * k + 2))"

definition zobrist_piece :: "nat \<Rightarrow> int \<Rightarrow> 64 word" where
  "zobrist_piece idx sq = randU64_nth (idx * 64 + nat sq)"

definition zobrist_side :: "64 word" where
  "zobrist_side = randU64_nth 768"

definition zobrist_castle :: "nat \<Rightarrow> 64 word" where
  "zobrist_castle cm = randU64_nth (769 + cm)"

definition zobrist_epFile :: "int \<Rightarrow> 64 word" where
  "zobrist_epFile f = randU64_nth (785 + nat f)"

fun pieceIndex :: "piece \<Rightarrow> nat" where
  "pieceIndex (Piece c t) =
     (if c = White then 0 else 6) +
     (case t of Pawn \<Rightarrow> 0 | Knight \<Rightarrow> 1 | Bishop \<Rightarrow> 2 | Rook \<Rightarrow> 3 | Queen \<Rightarrow> 4 | King \<Rightarrow> 5)"

definition castleMaskFromRights :: "rights \<Rightarrow> nat" where
  "castleMaskFromRights r =
     (if cK r then 1 else 0) + (if cQ r then 2 else 0) + (if ck r then 4 else 0) + (if cq r then 8 else 0)"

definition cellKey :: "cells \<Rightarrow> nat \<Rightarrow> 64 word" where
  "cellKey b i = (case cell b (int i) of None \<Rightarrow> 0 | Some p \<Rightarrow> zobrist_piece (pieceIndex p) (int i))"

definition computeHash :: "position \<Rightarrow> 64 word" where
  "computeHash s =
     (let h = foldl (\<lambda>h i. h XOR cellKey (board s) i) 0 [0..<64];
          h = (if turn s = Black then h XOR zobrist_side else h);
          h = h XOR zobrist_castle (castleMaskFromRights (castling s))
      in case ep s of None \<Rightarrow> h | Some e \<Rightarrow> h XOR zobrist_epFile (fileOf e))"

subsection \<open>Attack oracle\<close>

definition kingSquare :: "position \<Rightarrow> color \<Rightarrow> int" where
  "kingSquare s c = (if c = White then wKing s else bKing s)"

definition onBoard :: "int \<Rightarrow> bool" where
  \<comment> \<open>the negation of \<open>i < 0 || i >= 64\<close>\<close>
  "onBoard i = (0 \<le> i \<and> i < 64)"

definition leaperHit :: "cells \<Rightarrow> int \<Rightarrow> piece \<Rightarrow> (int \<Rightarrow> int \<Rightarrow> bool) \<Rightarrow> int \<Rightarrow> bool" where
  \<comment> \<open>one iteration of the pawn, knight and king loops of \<open>isSquareAttacked\<close>:
      \<open>shape df dr\<close> is the test on the file and rank distances\<close>
  "leaperHit b square p shape d =
     (let from = square + d in
      onBoard from \<and>
      shape \<bar>fileOf square - fileOf from\<bar> \<bar>rankOf square - rankOf from\<bar> \<and>
      cell b from = Some p)"

definition pawnShape :: "int \<Rightarrow> int \<Rightarrow> bool" where
  "pawnShape df dr = (df = 1)"

definition knightShape :: "int \<Rightarrow> int \<Rightarrow> bool" where
  "knightShape df dr = ((df = 1 \<and> dr = 2) \<or> (df = 2 \<and> dr = 1))"

definition kingShape :: "int \<Rightarrow> int \<Rightarrow> bool" where
  "kingShape df dr = (\<not> (df > 1 \<or> dr > 1))"

definition knightD :: "int list" where
  "knightD = [-17, -15, -10, -6, 6, 10, 15, 17]"

definition kingD :: "int list" where
  "kingD = [-9, -8, -7, -1, 1, 7, 8, 9]"

definition rookDirs :: "int list" where
  "rookDirs = [-8, 8, -1, 1]"

definition bishopDirs :: "int list" where
  "bishopDirs = [-9, -7, 7, 9]"

definition wraps :: "int \<Rightarrow> int \<Rightarrow> bool" where
  \<comment> \<open>the two \<open>break\<close> tests at the head of every ray step\<close>
  "wraps d cur =
     (let df = \<bar>fileOf cur - fileOf (cur - d)\<bar> in
      ((d = -1 \<or> d = 1) \<and> df \<noteq> 1) \<or> ((d = -9 \<or> d = 7 \<or> d = -7 \<or> d = 9) \<and> df \<noteq> 1))"

text \<open>
  The \<open>while\<close> loop of \<open>scan\<close> along one direction. Every direction of the source is a
  non-zero constant; the test \<open>d = 0\<close> only makes the recursion total.
\<close>

function scanRay :: "cells \<Rightarrow> color \<Rightarrow> bool \<Rightarrow> int \<Rightarrow> int \<Rightarrow> bool" where
  "scanRay b byColor rookLike d cur =
     (if d = 0 \<or> \<not> onBoard cur then False
      else if wraps d cur then False
      else case cell b cur of
             Some p \<Rightarrow>
               colorOf p = byColor \<and>
               (if rookLike then typeOf p = Rook \<or> typeOf p = Queen
                else typeOf p = Bishop \<or> typeOf p = Queen)
           | None \<Rightarrow> scanRay b byColor rookLike d (cur + d))"
  by pat_completeness auto
termination
  by (relation "measure (\<lambda>(b, c, r, d, cur). if d > 0 then nat (64 - cur) else nat (cur + 1))")
     (auto simp: onBoard_def)

definition scan :: "cells \<Rightarrow> int \<Rightarrow> color \<Rightarrow> int list \<Rightarrow> bool \<Rightarrow> bool" where
  "scan b square byColor dirs rookLike =
     list_ex (\<lambda>d. scanRay b byColor rookLike d (square + d)) dirs"

definition squareAttacked :: "cells \<Rightarrow> int \<Rightarrow> color \<Rightarrow> bool" where
  "squareAttacked b square byColor =
     (list_ex (leaperHit b square (Piece byColor Pawn) pawnShape)
        (if byColor = White then [7, 9] else [-9, -7]) \<or>
      list_ex (leaperHit b square (Piece byColor Knight) knightShape) knightD \<or>
      list_ex (leaperHit b square (Piece byColor King) kingShape) kingD \<or>
      scan b square byColor rookDirs True \<or>
      scan b square byColor bishopDirs False)"

definition isSquareAttacked :: "position \<Rightarrow> int \<Rightarrow> color \<Rightarrow> bool" where
  "isSquareAttacked s square byColor = squareAttacked (board s) square byColor"

definition inCheck :: "position \<Rightarrow> color \<Rightarrow> bool" where
  "inCheck s c = isSquareAttacked s (kingSquare s c) (opponent c)"

subsection \<open>Move generator\<close>

definition plain :: "int \<Rightarrow> int \<Rightarrow> piece \<Rightarrow> piece option \<Rightarrow> ptype option \<Rightarrow> move" where
  \<comment> \<open>the object literal shared by every move that is neither a castle nor en passant\<close>
  "plain from to piece cap promo =
     \<lparr>m_from = from, m_to = to, m_piece = piece, captured = cap, capturedIndex = None,
      promotion = promo, isCastle = False, castleSide = None, isEnPassant = False,
      isDoublePawn = False\<rparr>"

definition promos :: "ptype list" where
  "promos = [Queen, Rook, Bishop, Knight]"

definition forwardOf :: "color \<Rightarrow> int" where
  "forwardOf c = (if c = White then -8 else 8)"

definition startRankOf :: "color \<Rightarrow> int" where
  "startRankOf c = (if c = White then 6 else 1)"

definition promoRankOf :: "color \<Rightarrow> int" where
  "promoRankOf c = (if c = White then 0 else 7)"

definition isEnemy :: "piece option \<Rightarrow> color \<Rightarrow> bool" where
  \<comment> \<open>\<open>target && colorOf(target) === enemyColor\<close>\<close>
  "isEnemy target enemyColor = (case target of None \<Rightarrow> False | Some p \<Rightarrow> colorOf p = enemyColor)"

definition pawnPushes :: "cells \<Rightarrow> color \<Rightarrow> int \<Rightarrow> piece \<Rightarrow> move list" where
  "pawnPushes b c from piece =
     (let r = rankOf from; one = from + forwardOf c in
      if onBoard one \<and> cell b one = None then
        if rankOf one = promoRankOf c
        then map (\<lambda>promo. plain from one piece None (Some promo)) promos
        else plain from one piece None None #
             (let two = one + forwardOf c in
              if r = startRankOf c \<and> cell b two = None
              then [(plain from two piece None None)\<lparr>isDoublePawn := True\<rparr>] else [])
      else [])"

definition pawnCapture :: "cells \<Rightarrow> int option \<Rightarrow> color \<Rightarrow> int \<Rightarrow> piece \<Rightarrow> int \<Rightarrow> move list" where
  "pawnCapture b epSq c from piece d =
     (let to = from + d in
      if \<not> onBoard to then []
      else if \<bar>fileOf from - fileOf to\<bar> \<noteq> 1 then []
      else let target = cell b to in
        if isEnemy target (opponent c) then
          if rankOf to = promoRankOf c
          then map (\<lambda>promo. plain from to piece target (Some promo)) promos
          else [plain from to piece target None]
        else if epSq \<noteq> None \<and> Some to = epSq then
          let capSq = to - forwardOf c; capPiece = cell b capSq in
          (case capPiece of
             None \<Rightarrow> []
           | Some cp \<Rightarrow>
               if typeOf cp = Pawn \<and> colorOf cp = opponent c
               then [\<lparr>m_from = from, m_to = to, m_piece = piece, captured = capPiece,
                      capturedIndex = Some capSq, promotion = None, isCastle = False,
                      castleSide = None, isEnPassant = True, isDoublePawn = False\<rparr>]
               else [])
        else [])"

definition pawnMoves :: "cells \<Rightarrow> int option \<Rightarrow> color \<Rightarrow> int \<Rightarrow> piece \<Rightarrow> move list" where
  "pawnMoves b epSq c from piece =
     pawnPushes b c from piece @
     concat (map (pawnCapture b epSq c from piece) (if c = White then [-9, -7] else [7, 9]))"

definition stepMove :: "cells \<Rightarrow> color \<Rightarrow> int \<Rightarrow> piece \<Rightarrow> (int \<Rightarrow> int \<Rightarrow> bool) \<Rightarrow> int \<Rightarrow> move list" where
  \<comment> \<open>one iteration of the knight and king loops\<close>
  "stepMove b c from piece shape d =
     (let to = from + d in
      if \<not> onBoard to then []
      else if \<not> shape \<bar>fileOf from - fileOf to\<bar> \<bar>rankOf from - rankOf to\<bar> then []
      else let target = cell b to in
        if target = None \<or> isEnemy target (opponent c) then [plain from to piece target None] else [])"

function slideRay :: "cells \<Rightarrow> color \<Rightarrow> int \<Rightarrow> piece \<Rightarrow> int \<Rightarrow> int \<Rightarrow> move list" where
  "slideRay b c from piece d to =
     (if d = 0 \<or> \<not> onBoard to then []
      else if wraps d to then []
      else case cell b to of
             None \<Rightarrow> plain from to piece None None # slideRay b c from piece d (to + d)
           | Some target \<Rightarrow>
               if colorOf target = opponent c then [plain from to piece (Some target) None] else [])"
  by pat_completeness auto
termination
  by (relation "measure (\<lambda>(b, c, f, p, d, to). if d > 0 then nat (64 - to) else nat (to + 1))")
     (auto simp: onBoard_def)

definition sliderDirs :: "ptype \<Rightarrow> int list" where
  "sliderDirs t =
     (if t = Bishop then [-9, -7, 7, 9]
      else if t = Rook then [-8, 8, -1, 1]
      else [-9, -7, 7, 9, -8, 8, -1, 1])"

definition castleMove :: "int \<Rightarrow> int \<Rightarrow> piece \<Rightarrow> castle_side \<Rightarrow> move" where
  "castleMove from to piece side =
     \<lparr>m_from = from, m_to = to, m_piece = piece, captured = None, capturedIndex = None,
      promotion = None, isCastle = True, castleSide = Some side, isEnPassant = False,
      isDoublePawn = False\<rparr>"

definition canCastle :: "position \<Rightarrow> color \<Rightarrow> int \<Rightarrow> castle_side \<Rightarrow> bool" where
  "canCastle s c from side =
     (let b = board s; enemyColor = opponent c; kSide = (side = KSide) in
      if c = White \<and> from \<noteq> 60 then False
      else if c = Black \<and> from \<noteq> 4 then False
      else if inCheck s c then False
      else if c = White then
        if kSide \<and> \<not> cK (castling s) then False
        else if \<not> kSide \<and> \<not> cQ (castling s) then False
        else if kSide then
          if cell b 61 \<noteq> None \<or> cell b 62 \<noteq> None then False
          else if cell b 63 \<noteq> Some (Piece White Rook) then False
          else if isSquareAttacked s 61 enemyColor \<or> isSquareAttacked s 62 enemyColor then False
          else True
        else if cell b 59 \<noteq> None \<or> cell b 58 \<noteq> None \<or> cell b 57 \<noteq> None then False
        else if cell b 56 \<noteq> Some (Piece White Rook) then False
        else if isSquareAttacked s 59 enemyColor \<or> isSquareAttacked s 58 enemyColor then False
        else True
      else if kSide \<and> \<not> ck (castling s) then False
      else if \<not> kSide \<and> \<not> cq (castling s) then False
      else if kSide then
        if cell b 5 \<noteq> None \<or> cell b 6 \<noteq> None then False
        else if cell b 7 \<noteq> Some (Piece Black Rook) then False
        else if isSquareAttacked s 5 enemyColor \<or> isSquareAttacked s 6 enemyColor then False
        else True
      else if cell b 3 \<noteq> None \<or> cell b 2 \<noteq> None \<or> cell b 1 \<noteq> None then False
      else if cell b 0 \<noteq> Some (Piece Black Rook) then False
      else if isSquareAttacked s 3 enemyColor \<or> isSquareAttacked s 2 enemyColor then False
      else True)"

definition kingMoves :: "position \<Rightarrow> color \<Rightarrow> int \<Rightarrow> piece \<Rightarrow> move list" where
  "kingMoves s c from piece =
     concat (map (stepMove (board s) c from piece kingShape) kingD) @
     (if canCastle s c from KSide
      then [castleMove from (if c = White then 62 else 6) piece KSide] else []) @
     (if canCastle s c from QSide
      then [castleMove from (if c = White then 58 else 2) piece QSide] else [])"

definition movesFrom :: "position \<Rightarrow> color \<Rightarrow> int \<Rightarrow> move list" where
  \<comment> \<open>the body of the loop over \<open>from\<close> in \<open>generatePseudoMoves\<close>\<close>
  "movesFrom s c from =
     (case cell (board s) from of
        None \<Rightarrow> []
      | Some piece \<Rightarrow>
          if colorOf piece \<noteq> c then []
          else (case typeOf piece of
                  Pawn \<Rightarrow> pawnMoves (board s) (ep s) c from piece
                | Knight \<Rightarrow> concat (map (stepMove (board s) c from piece knightShape) knightD)
                | King \<Rightarrow> kingMoves s c from piece
                | t \<Rightarrow> concat (map (\<lambda>d. slideRay (board s) c from piece d (from + d)) (sliderDirs t))))"

definition generatePseudoMoves :: "position \<Rightarrow> color \<Rightarrow> move list" where
  "generatePseudoMoves s c = concat (map (movesFrom s c) [0..63])"

subsection \<open>Move applier\<close>

definition moveRookHash :: "int \<Rightarrow> int \<Rightarrow> piece \<Rightarrow> position \<Rightarrow> position" where
  "moveRookHash from to rookPiece s =
     s\<lparr>board := put (put (board s) from None) to (Some rookPiece),
       hash := hash s XOR zobrist_piece (pieceIndex rookPiece) from
                      XOR zobrist_piece (pieceIndex rookPiece) to\<rparr>"

definition updateCastlingRightsAfterMove ::
  "int \<Rightarrow> int \<Rightarrow> piece \<Rightarrow> piece option \<Rightarrow> rights \<Rightarrow> rights" where
  "updateCastlingRightsAfterMove from to piece cap r =
     (let r1 =
        (if piece = Piece White King then r\<lparr>cK := False, cQ := False\<rparr>
         else if piece = Piece Black King then r\<lparr>ck := False, cq := False\<rparr>
         else if piece = Piece White Rook then
           (let ra = (if from = 63 then r\<lparr>cK := False\<rparr> else r)
            in if from = 56 then ra\<lparr>cQ := False\<rparr> else ra)
         else if piece = Piece Black Rook then
           (let ra = (if from = 7 then r\<lparr>ck := False\<rparr> else r)
            in if from = 0 then ra\<lparr>cq := False\<rparr> else ra)
         else r)
      in if cap = Some (Piece White Rook) then
           (let ra = (if to = 63 then r1\<lparr>cK := False\<rparr> else r1)
            in if to = 56 then ra\<lparr>cQ := False\<rparr> else ra)
         else if cap = Some (Piece Black Rook) then
           (let ra = (if to = 7 then r1\<lparr>ck := False\<rparr> else r1)
            in if to = 0 then ra\<lparr>cq := False\<rparr> else ra)
         else r1)"

definition captureSquare :: "move \<Rightarrow> int option" where
  \<comment> \<open>\<open>move.isEnPassant ? move.capturedIndex : to\<close>; \<open>None\<close> is \<open>undefined\<close>\<close>
  "captureSquare mv = (if isEnPassant mv then capturedIndex mv else Some (m_to mv))"

definition capturedNow :: "cells \<Rightarrow> move \<Rightarrow> piece option" where
  \<comment> \<open>the piece \<open>makeMove\<close> reads from the board\<close>
  "capturedNow b mv = (case captureSquare mv of None \<Rightarrow> None | Some q \<Rightarrow> cell b q)"

definition xorEp :: "int option \<Rightarrow> 64 word \<Rightarrow> 64 word" where
  \<comment> \<open>\<open>if (this.ep !== null) this.hash ^= ZOBRIST.epFile[fileOf(this.ep)]\<close>\<close>
  "xorEp e h = (case e of None \<Rightarrow> h | Some q \<Rightarrow> h XOR zobrist_epFile (fileOf q))"

definition repCount :: "(64 word \<Rightarrow> nat option) \<Rightarrow> 64 word \<Rightarrow> nat" where
  \<comment> \<open>\<open>this.rep.get(key) || 0\<close>\<close>
  "repCount r k = (case r k of None \<Rightarrow> 0 | Some n \<Rightarrow> n)"

text \<open>
  \<open>makeMove\<close> is a sequence of assignments to the fields of the engine. Each group of
  statements is one state transformer below, in the order of the source; \<open>makeMove\<close> runs
  them one after the other. \<open>cap\<close> is the piece read from the board before anything moves.
\<close>

definition mkUndo :: "move \<Rightarrow> position \<Rightarrow> undo" where
  "mkUndo mv s =
     \<lparr>u_move = mv, prevTurn = turn s, prevCastling = castling s, prevEp = ep s,
      prevHalfmove = halfmove s, prevFullmove = fullmove s, prevHash = hash s,
      prevWKing = wKing s, prevBKing = bKing s, u_captured = capturedNow (board s) mv\<rparr>"

definition hashOutOld :: "position \<Rightarrow> position" where
  \<comment> \<open>XOR out the en-passant and castling keys of the position before the move\<close>
  "hashOutOld s =
     s\<lparr>hash := xorEp (ep s) (hash s) XOR zobrist_castle (castleMaskFromRights (castling s))\<rparr>"

definition liftPiece :: "move \<Rightarrow> position \<Rightarrow> position" where
  "liftPiece mv s =
     s\<lparr>hash := hash s XOR zobrist_piece (pieceIndex (m_piece mv)) (m_from mv),
       board := put (board s) (m_from mv) None\<rparr>"

definition removeCaptured :: "move \<Rightarrow> piece option \<Rightarrow> position \<Rightarrow> position" where
  "removeCaptured mv cap s =
     (case cap of
        None \<Rightarrow> s
      | Some c \<Rightarrow>
          (case captureSquare mv of
             None \<Rightarrow> s
           | Some capSq \<Rightarrow>
               s\<lparr>hash := hash s XOR zobrist_piece (pieceIndex c) capSq,
                 board := put (board s) capSq None\<rparr>))"

definition placedPiece :: "move \<Rightarrow> color \<Rightarrow> piece" where
  \<comment> \<open>\<open>this.turn === "w" ? move.promotion.toUpperCase() : move.promotion\<close>, or the piece itself\<close>
  "placedPiece mv t = (case promotion mv of None \<Rightarrow> m_piece mv | Some promo \<Rightarrow> Piece t promo)"

definition placePiece :: "move \<Rightarrow> position \<Rightarrow> position" where
  "placePiece mv s =
     s\<lparr>hash := hash s XOR zobrist_piece (pieceIndex (placedPiece mv (turn s))) (m_to mv),
       board := put (board s) (m_to mv) (Some (placedPiece mv (turn s)))\<rparr>"

definition trackKing :: "move \<Rightarrow> position \<Rightarrow> position" where
  "trackKing mv s =
     (if typeOf (m_piece mv) = King
      then (if turn s = White then s\<lparr>wKing := m_to mv\<rparr> else s\<lparr>bKing := m_to mv\<rparr>)
      else s)"

definition castleRook :: "move \<Rightarrow> position \<Rightarrow> position" where
  "castleRook mv s =
     (if isCastle mv then
        (if turn s = White then
           (if castleSide mv = Some KSide then moveRookHash 63 61 (Piece White Rook) s
            else moveRookHash 56 59 (Piece White Rook) s)
         else
           (if castleSide mv = Some KSide then moveRookHash 7 5 (Piece Black Rook) s
            else moveRookHash 0 3 (Piece Black Rook) s))
      else s)"

definition newRights :: "move \<Rightarrow> piece option \<Rightarrow> position \<Rightarrow> position" where
  "newRights mv cap s =
     s\<lparr>castling := updateCastlingRightsAfterMove (m_from mv) (m_to mv) (m_piece mv) cap (castling s)\<rparr>"

definition newEp :: "move \<Rightarrow> position \<Rightarrow> position" where
  "newEp mv s =
     s\<lparr>ep := (if typeOf (m_piece mv) = Pawn \<and> \<bar>m_to mv - m_from mv\<bar> = 16
               then Some ((m_to mv + m_from mv) div 2) else None)\<rparr>"

definition hashInNew :: "position \<Rightarrow> position" where
  "hashInNew s =
     s\<lparr>hash := xorEp (ep s) (hash s XOR zobrist_castle (castleMaskFromRights (castling s)))\<rparr>"

definition newClocks :: "move \<Rightarrow> piece option \<Rightarrow> position \<Rightarrow> position" where
  "newClocks mv cap s =
     s\<lparr>halfmove := (if typeOf (m_piece mv) = Pawn \<or> cap \<noteq> None then 0 else halfmove s + 1),
       fullmove := (if turn s = Black then fullmove s + 1 else fullmove s)\<rparr>"

definition flipSide :: "position \<Rightarrow> position" where
  "flipSide s = s\<lparr>turn := opponent (turn s), hash := hash s XOR zobrist_side\<rparr>"

definition pushHistory :: "bool \<Rightarrow> position \<Rightarrow> position" where
  "pushHistory trackHistory s =
     (if trackHistory
      then s\<lparr>hashLine := hashLine s @ [hash s],
             rep := (rep s)(hash s \<mapsto> repCount (rep s) (hash s) + 1)\<rparr>
      else s)"

definition makeMove :: "move \<Rightarrow> bool \<Rightarrow> position \<Rightarrow> undo \<times> position" where
  "makeMove mv trackHistory s =
     (let cap = capturedNow (board s) mv in
      (mkUndo mv s,
       pushHistory trackHistory (flipSide (newClocks mv cap (hashInNew (newEp mv
         (newRights mv cap (castleRook mv (trackKing mv (placePiece mv
           (removeCaptured mv cap (liftPiece mv (hashOutOld s)))))))))))))"

text \<open>\<open>unmakeMove\<close>: the history, the saved fields, then the board.\<close>

definition popHistory :: "bool \<Rightarrow> position \<Rightarrow> position" where
  "popHistory trackHistory s =
     (if trackHistory then
        (let key = hash s; cur = int (repCount (rep s) key) - 1 in
         s\<lparr>rep := (if cur \<le> 0 then (rep s)(key := None) else (rep s)(key \<mapsto> nat cur)),
           hashLine := butlast (hashLine s)\<rparr>)
      else s)"

definition restoreFields :: "undo \<Rightarrow> position \<Rightarrow> position" where
  "restoreFields u s =
     s\<lparr>turn := prevTurn u, castling := prevCastling u, ep := prevEp u,
       halfmove := prevHalfmove u, fullmove := prevFullmove u, hash := prevHash u,
       wKing := prevWKing u, bKing := prevBKing u\<rparr>"

definition restoreBoard :: "move \<Rightarrow> piece option \<Rightarrow> color \<Rightarrow> cells \<Rightarrow> cells" where
  \<comment> \<open>the board assignments of \<open>unmakeMove\<close>; \<open>t\<close> is the restored \<open>this.turn\<close>\<close>
  "restoreBoard mv cap t b =
     (let b = put b (m_from mv) (Some (m_piece mv));
          b = (if isCastle mv then
                 (if t = White then
                    (if castleSide mv = Some KSide
                     then put (put b 63 (Some (Piece White Rook))) 61 None
                     else put (put b 56 (Some (Piece White Rook))) 59 None)
                  else
                    (if castleSide mv = Some KSide
                     then put (put b 7 (Some (Piece Black Rook))) 5 None
                     else put (put b 0 (Some (Piece Black Rook))) 3 None))
               else b);
          b = put b (m_to mv) None
      in case cap of
           None \<Rightarrow> b
         | Some c \<Rightarrow> (case captureSquare mv of None \<Rightarrow> b | Some capSq \<Rightarrow> put b capSq (Some c)))"

definition unmakeMove :: "undo \<Rightarrow> bool \<Rightarrow> position \<Rightarrow> position" where
  "unmakeMove u trackHistory s =
     (let s = restoreFields u (popHistory trackHistory s)
      in s\<lparr>board := restoreBoard (u_move u) (u_captured u) (turn s) (board s)\<rparr>)"

text \<open>
  \<open>generateLegalMoves\<close> tries every pseudo-legal move on the live position and takes it back;
  the position is threaded through the loop, so that the model says what the loop leaves
  behind.
\<close>

fun legalLoop :: "color \<Rightarrow> move list \<Rightarrow> position \<Rightarrow> move list \<times> position" where
  "legalLoop c [] s = ([], s)"
| "legalLoop c (m # ms) s =
     (let (undo, s1) = makeMove m False s;
          ok = \<not> inCheck s1 c;
          s2 = unmakeMove undo False s1;
          (legal, s3) = legalLoop c ms s2
      in (if ok then m # legal else legal, s3))"

definition generateLegalMoves :: "position \<Rightarrow> color \<Rightarrow> move list \<times> position" where
  "generateLegalMoves s c = legalLoop c (generatePseudoMoves s c) s"

subsection \<open>Termination detector\<close>

definition getRepetitionCount :: "position \<Rightarrow> nat" where
  "getRepetitionCount s = repCount (rep s) (hash s)"

definition piecesOn :: "cells \<Rightarrow> piece list" where
  \<comment> \<open>the pieces met by a loop over the squares 0 to 63\<close>
  "piecesOn b = concat (map (\<lambda>i. case cell b i of None \<Rightarrow> [] | Some p \<Rightarrow> [p]) [0..63])"

definition countOf :: "cells \<Rightarrow> color \<Rightarrow> ptype \<Rightarrow> nat" where
  "countOf b c t = length (filter (\<lambda>p. p = Piece c t) (piecesOn b))"

definition canMate :: "nat \<Rightarrow> nat \<Rightarrow> bool" where
  "canMate bishops knights = (bishops \<ge> 2 \<or> (bishops \<ge> 1 \<and> knights \<ge> 1) \<or> knights \<ge> 3)"

definition isInsufficientMaterial :: "cells \<Rightarrow> bool" where
  "isInsufficientMaterial b =
     (if list_ex (\<lambda>p. typeOf p = Pawn \<or> typeOf p = Queen \<or> typeOf p = Rook) (piecesOn b)
      then False
      else \<not> canMate (countOf b White Bishop) (countOf b White Knight) \<and>
           \<not> canMate (countOf b Black Bishop) (countOf b Black Knight))"

datatype game_result =
  Ongoing | Checkmate color | Stalemate | FiftyMove | Threefold | Insufficient

definition isOver :: "game_result \<Rightarrow> bool" where
  "isOver r = (r \<noteq> Ongoing)"

definition classify :: "position \<Rightarrow> move list \<Rightarrow> game_result" where
  \<comment> \<open>the body of \<open>getGameResult\<close> after the legal moves are known\<close>
  "classify s legal =
     (if legal = [] then
        (if inCheck s (turn s) then Checkmate (opponent (turn s)) else Stalemate)
      else if halfmove s \<ge> 100 then FiftyMove
      else if getRepetitionCount s \<ge> 3 then Threefold
      else if isInsufficientMaterial (board s) then Insufficient
      else Ongoing)"

definition getGameResult :: "position \<Rightarrow> game_result \<times> position" where
  \<comment> \<open>the result, and the engine as the trial moves of \<open>generateLegalMoves\<close> leave it\<close>
  "getGameResult s =
     (let (legal, s) = generateLegalMoves s (turn s) in (classify s legal, s))"

subsection \<open>Evaluator and move ordering\<close>

definition pieceValue :: "ptype \<Rightarrow> int" where
  "pieceValue t =
     (case t of Pawn \<Rightarrow> 100 | Knight \<Rightarrow> 320 | Bishop \<Rightarrow> 330 | Rook \<Rightarrow> 500 | Queen \<Rightarrow> 900 | King \<Rightarrow> 0)"

definition pstPawn :: "int list" where
  "pstPawn =
     [0, 0, 0, 0, 0, 0, 0, 0,
      50, 50, 50, 50, 50, 50, 50, 50,
      10, 10, 20, 30, 30, 20, 10, 10,
      5, 5, 10, 25, 25, 10, 5, 5,
      0, 0, 0, 20, 20, 0, 0, 0,
      5, -5, -10, 0, 0, -10, -5, 5,
      5, 10, 10, -20, -20, 10, 10, 5,
      0, 0, 0, 0, 0, 0, 0, 0]"

definition pstKnight :: "int list" where
  "pstKnight =
     [-50, -40, -30, -30, -30, -30, -40, -50,
      -40, -20, 0, 0, 0, 0, -20, -40,
      -30, 0, 10, 15, 15, 10, 0, -30,
      -30, 5, 15, 20, 20, 15, 5, -30,
      -30, 0, 15, 20, 20, 15, 0, -30,
      -30, 5, 10, 15, 15, 10, 5, -30,
      -40, -20, 0, 5, 5, 0, -20, -40,
      -50, -40, -30, -30, -30, -30, -40, -50]"

definition pstBishop :: "int list" where
  "pstBishop =
     [-20, -10, -10, -10, -10, -10, -10, -20,
      -10, 0, 0, 0, 0, 0, 0, -10,
      -10, 0, 5, 10, 10, 5, 0, -10,
      -10, 5, 5, 10, 10, 5, 5, -10,
      -10, 0, 10, 10, 10, 10, 0, -10,
      -10, 10, 10, 10, 10, 10, 10, -10,
      -10, 5, 0, 0, 0, 0, 5, -10,
      -20, -10, -10, -10, -10, -10, -10, -20]"

definition pstRook :: "int list" where
  "pstRook =
     [0, 0, 0, 0, 0, 0, 0, 0,
      5, 10, 10, 10, 10, 10, 10, 5,
      -5, 0, 0, 0, 0, 0, 0, -5,
      -5, 0, 0, 0, 0, 0, 0, -5,
      -5, 0, 0, 0, 0, 0, 0, -5,
      -5, 0, 0, 0, 0, 0, 0, -5,
      -5, 0, 0, 0, 0, 0, 0, -5,
      0, 0, 0, 5, 5, 0, 0, 0]"

definition pstQueen :: "int list" where
  "pstQueen =
     [-20, -10, -10, -5, -5, -10, -10, -20,
      -10, 0, 0, 0, 0, 0, 0, -10,
      -10, 0, 5, 5, 5, 5, 0, -10,
      -5, 0, 5, 5, 5, 5, 0, -5,
      0, 0, 5, 5, 5, 5, 0, -5,
      -10, 5, 5, 5, 5, 5, 0, -10,
      -10, 0, 5, 0, 0, 0, 0, -10,
      -20, -10, -10, -5, -5, -10, -10, -20]"

definition pstKingMid :: "int list" where
  "pstKingMid =
     [-30, -40, -40, -50, -50, -40, -40, -30,
      -30, -40, -40, -50, -50, -40, -40, -30,
      -30, -40, -40, -50, -50, -40, -40, -30,
      -30, -40, -40, -50, -50, -40, -40, -30,
      -20, -30, -30, -40, -40, -30, -30, -20,
      -10, -20, -20, -20, -20, -20, -20, -10,
      20, 20, 0, 0, 0, 0, 20, 20,
      20, 30, 10, 0, 0, 10, 30, 20]"

definition pstOf :: "ptype \<Rightarrow> int list" where
  "pstOf t =
     (case t of Pawn \<Rightarrow> pstPawn | Knight \<Rightarrow> pstKnight | Bishop \<Rightarrow> pstBishop | Rook \<Rightarrow> pstRook
      | Queen \<Rightarrow> pstQueen | King \<Rightarrow> pstKingMid)"

definition clamp :: "int \<Rightarrow> int \<Rightarrow> int \<Rightarrow> int" where
  "clamp n a b = max a (min b n)"

definition squareScore :: "cells \<Rightarrow> color \<Rightarrow> int \<Rightarrow> int" where
  \<comment> \<open>what one iteration of the loop of \<open>evaluate\<close> adds to the score\<close>
  "squareScore b perspectiveColor i =
     (case cell b i of
        None \<Rightarrow> 0
      | Some p \<Rightarrow>
          (let c = colorOf p; t = typeOf p; base = pieceValue t; mirror = 63 - i;
               ps = (if c = White then pstOf t ! nat i else pstOf t ! nat mirror);
               v = base + ps
           in if c = perspectiveColor then v else - v))"

definition material :: "cells \<Rightarrow> color \<Rightarrow> int" where
  "material b perspectiveColor = foldl (\<lambda>score i. score + squareScore b perspectiveColor i) 0 [0..63]"

definition evaluate :: "position \<Rightarrow> color \<Rightarrow> int \<times> position" where
  \<comment> \<open>the score, and the engine as the two calls of \<open>generateLegalMoves\<close> leave it\<close>
  "evaluate s perspectiveColor =
     (let score = material (board s) perspectiveColor;
          (mine, s) = generateLegalMoves s perspectiveColor;
          (theirs, s) = generateLegalMoves s (opponent perspectiveColor);
          mobility = int (length mine) - int (length theirs)
      in (score + clamp mobility (- 20) 20 * 2, s))"

definition valueOf :: "piece option \<Rightarrow> int" where
  \<comment> \<open>\<open>v\<close> of \<open>orderMoves\<close>\<close>
  "valueOf p = (case p of None \<Rightarrow> 0 | Some q \<Rightarrow> pieceValue (typeOf q))"

definition orderScore :: "move \<Rightarrow> int" where
  "orderScore m =
     (if promotion m \<noteq> None then 900 else 0) +
     (if captured m \<noteq> None \<or> isEnPassant m
      then valueOf (captured m) * 10 - valueOf (Some (m_piece m)) else 0)"

text \<open>
  \<open>Array.prototype.sort\<close> is stable, and the comparator \<open>bScore - aScore\<close> orders by
  descending score: the result is the stable sort by the negated score.
\<close>

definition orderMoves :: "move list \<Rightarrow> move list" where
  "orderMoves moves = sort_key (\<lambda>m. - orderScore m) moves"

subsection \<open>Position strings (FEN)\<close>

text \<open>
  Strings are lists of characters of type \<open>char\<close>, the character codes 0 to 255: the model
  covers the strings whose code units are all below 256. The clocks are natural numbers.
  \<open>String(n)\<close> of a clock is its decimal numeral. \<open>Number(token)\<close> is modelled by \<open>jsNumber\<close>
  on the tokens made of decimal digits only, where it is exact for values below \<open>2^53\<close>; any
  other token is read as not a number, which is what the program does with a token such
  as \<open>x\<close> or \<open>-\<close>. Tokens in the other numeral syntaxes of JavaScript (a sign, a fraction,
  an exponent, a radix prefix, \<open>Infinity\<close>) and numerals from \<open>2^53\<close> on are outside the model:
  \<open>plainClocks\<close> below says that a string has none of them in its clock fields.
\<close>

definition digitChar :: "nat \<Rightarrow> char" where
  "digitChar n = ''0123456789'' ! n"

fun indexOf :: "char \<Rightarrow> string \<Rightarrow> int" where
  \<comment> \<open>\<open>String.prototype.indexOf\<close> for one character: -1 when absent\<close>
  "indexOf c [] = -1"
| "indexOf c (x # xs) = (if x = c then 0 else (let k = indexOf c xs in if k < 0 then -1 else k + 1))"

definition digitVal :: "char \<Rightarrow> nat option" where
  \<comment> \<open>the value of a decimal digit, \<open>None\<close> for any other character\<close>
  "digitVal c = (let k = indexOf c ''0123456789'' in if k < 0 then None else Some (nat k))"

fun showNat :: "nat \<Rightarrow> string" where
  "showNat n = (if n < 10 then [digitChar n] else showNat (n div 10) @ [digitChar (n mod 10)])"

definition jsNumber :: "string \<Rightarrow> nat option" where
  "jsNumber tok =
     (if tok \<noteq> [] \<and> list_all (\<lambda>c. digitVal c \<noteq> None) tok
      then Some (foldl (\<lambda>a c. 10 * a + (case digitVal c of None \<Rightarrow> 0 | Some d \<Rightarrow> d)) 0 tok)
      else None)"

fun pieceChar :: "piece \<Rightarrow> char" where
  "pieceChar (Piece White Pawn) = CHR ''P''"
| "pieceChar (Piece White Knight) = CHR ''N''"
| "pieceChar (Piece White Bishop) = CHR ''B''"
| "pieceChar (Piece White Rook) = CHR ''R''"
| "pieceChar (Piece White Queen) = CHR ''Q''"
| "pieceChar (Piece White King) = CHR ''K''"
| "pieceChar (Piece Black Pawn) = CHR ''p''"
| "pieceChar (Piece Black Knight) = CHR ''n''"
| "pieceChar (Piece Black Bishop) = CHR ''b''"
| "pieceChar (Piece Black Rook) = CHR ''r''"
| "pieceChar (Piece Black Queen) = CHR ''q''"
| "pieceChar (Piece Black King) = CHR ''k''"

definition charPiece :: "char \<Rightarrow> piece option" where
  \<comment> \<open>the letters accepted by \<open>/[prnbqkPRNBQK]/\<close>\<close>
  "charPiece c =
     (if c = CHR ''P'' then Some (Piece White Pawn) else if c = CHR ''N'' then Some (Piece White Knight)
      else if c = CHR ''B'' then Some (Piece White Bishop) else if c = CHR ''R'' then Some (Piece White Rook)
      else if c = CHR ''Q'' then Some (Piece White Queen) else if c = CHR ''K'' then Some (Piece White King)
      else if c = CHR ''p'' then Some (Piece Black Pawn) else if c = CHR ''n'' then Some (Piece Black Knight)
      else if c = CHR ''b'' then Some (Piece Black Bishop) else if c = CHR ''r'' then Some (Piece Black Rook)
      else if c = CHR ''q'' then Some (Piece Black Queen) else if c = CHR ''k'' then Some (Piece Black King)
      else None)"

definition filesStr :: string where
  "filesStr = ''abcdefgh''"

definition ranksStr :: string where
  "ranksStr = ''87654321''"

definition indexToSquare :: "int \<Rightarrow> string" where
  \<comment> \<open>a rank outside the string prints as \<open>undefined\<close>\<close>
  "indexToSquare i =
     filesStr ! nat (fileOf i) #
     (if 0 \<le> rankOf i \<and> rankOf i < 8 then [ranksStr ! nat (rankOf i)] else ''undefined'')"

definition squareToIndex :: "string \<Rightarrow> int option" where
  "squareToIndex sq =
     (case sq of
        f # r # rest \<Rightarrow>
          (let file = indexOf f filesStr; rank = indexOf r ranksStr in
           if file < 0 \<or> rank < 0 then None else Some (rank * 8 + file))
      | _ \<Rightarrow> None)"

fun encodeRow :: "piece option list \<Rightarrow> nat \<Rightarrow> string" where
  \<comment> \<open>the inner loop of \<open>toFEN\<close> with its counter \<open>empty\<close>, and the flush after the loop\<close>
  "encodeRow [] e = (if e \<noteq> 0 then showNat e else [])"
| "encodeRow (None # cs) e = encodeRow cs (e + 1)"
| "encodeRow (Some p # cs) e = (if e \<noteq> 0 then showNat e else []) @ pieceChar p # encodeRow cs 0"

definition rowCells :: "cells \<Rightarrow> int \<Rightarrow> piece option list" where
  "rowCells b r = map (\<lambda>f. cell b (r * 8 + f)) [0..7]"

definition placementOf :: "cells \<Rightarrow> string" where
  "placementOf b =
     concat (map (\<lambda>r. encodeRow (rowCells b r) 0 @ (if r \<noteq> 7 then ''/'' else [])) [0..7])"

definition castlingString :: "rights \<Rightarrow> string" where
  "castlingString r =
     (let s = (if cK r then ''K'' else []) @ (if cQ r then ''Q'' else []) @
              (if ck r then ''k'' else []) @ (if cq r then ''q'' else [])
      in if s = [] then ''-'' else s)"

definition turnString :: "color \<Rightarrow> string" where
  "turnString c = (if c = White then ''w'' else ''b'')"

definition toFEN :: "position \<Rightarrow> string" where
  "toFEN s =
     placementOf (board s) @ '' '' @ turnString (turn s) @ '' '' @ castlingString (castling s) @
     '' '' @ (case ep s of None \<Rightarrow> ''-'' | Some e \<Rightarrow> indexToSquare e) @
     '' '' @ showNat (halfmove s) @ '' '' @ showNat (fullmove s)"

datatype fen_error =
  TooFewFields | BadPlacement | RowOverflow | BadPiece char | RowLength | MissingKing
  | BadTurn | BadCastling | BadEnPassant


definition isSpace :: "char \<Rightarrow> bool" where
  \<comment> \<open>the characters of \<open>\s\<close> and of \<open>trim\<close> below 256: tab, line feed, vertical tab, form feed,
      carriage return, space and no-break space\<close>
  "isSpace c =
     (c = CHR 0x09 \<or> c = CHR 0x0A \<or> c = CHR 0x0B \<or> c = CHR 0x0C \<or> c = CHR 0x0D \<or> c = CHR 0x20 \<or>
      c = CHR 0xA0)"

text \<open>\<open>tokens\<close> cuts a string at runs of white space, dropping the runs at both ends.\<close>

fun tokensAcc :: "string \<Rightarrow> string \<Rightarrow> string list" where
  \<comment> \<open>\<open>cur\<close> holds the characters of the token being read, last first\<close>
  "tokensAcc cur [] = (if cur = [] then [] else [rev cur])"
| "tokensAcc cur (c # cs) =
     (if isSpace c then (if cur = [] then tokensAcc [] cs else rev cur # tokensAcc [] cs)
      else tokensAcc (c # cur) cs)"

definition fenFields :: "string \<Rightarrow> string list" where
  \<comment> \<open>\<open>String(fen || "").trim().split(/\s+/)\<close>; a blank string gives one empty field\<close>
  "fenFields fen = (case tokensAcc [] fen of [] \<Rightarrow> [[]] | ws \<Rightarrow> ws)"

fun splitOn :: "char \<Rightarrow> string \<Rightarrow> string list" where
  \<comment> \<open>\<open>placement.split("/")\<close>: empty pieces are kept\<close>
  "splitOn c [] = [[]]"
| "splitOn c (x # xs) =
     (if x = c then [] # splitOn c xs
      else (case splitOn c xs of [] \<Rightarrow> [[x]] | w # ws \<Rightarrow> (x # w) # ws))"

text \<open>
  The loop over the characters of one rank. It writes into the live board, so the board
  comes back also when a character is refused; the king squares found so far are locals of
  \<open>loadFEN\<close> and come back with it.
\<close>

function parseRow ::
  "int \<Rightarrow> string \<Rightarrow> int \<Rightarrow> cells \<Rightarrow> int option \<Rightarrow> int option \<Rightarrow>
   fen_error option \<times> int \<times> cells \<times> int option \<times> int option" where
  "parseRow r [] file b wk bk = (None, file, b, wk, bk)"
| "parseRow r (ch # cs) file b wk bk =
     (if file > 7 then (Some RowOverflow, file, b, wk, bk)
      else if ch \<in> set ''12345678''
      then parseRow r cs (file + int (case digitVal ch of None \<Rightarrow> 0 | Some d \<Rightarrow> d)) b wk bk
      else (case charPiece ch of
              None \<Rightarrow> (Some (BadPiece ch), file, b, wk, bk)
            | Some p \<Rightarrow>
                (let idx = r * 8 + file in
                 parseRow r cs (file + 1) (put b idx (Some p))
                   (if ch = CHR ''K'' then Some idx else wk)
                   (if ch = CHR ''k'' then Some idx else bk))))"
  by pat_completeness auto
termination
  by (relation "measure (\<lambda>(r, row, file, b, wk, bk). length row)") auto

fun parseRows ::
  "int \<Rightarrow> string list \<Rightarrow> cells \<Rightarrow> int option \<Rightarrow> int option \<Rightarrow>
   fen_error option \<times> cells \<times> int option \<times> int option" where
  "parseRows r [] b wk bk = (None, b, wk, bk)"
| "parseRows r (row # rows) b wk bk =
     (case parseRow r row 0 b wk bk of
        (Some e, file, b', wk', bk') \<Rightarrow> (Some e, b', wk', bk')
      | (None, file, b', wk', bk') \<Rightarrow>
          if file \<noteq> 8 then (Some RowLength, b', wk', bk')
          else parseRows (r + 1) rows b' wk' bk')"

fun parseCastling :: "string \<Rightarrow> rights \<Rightarrow> bool \<times> rights" where
  \<comment> \<open>the loop over the castling letters; \<open>True\<close> when a letter is not one of \<open>KQkq\<close>\<close>
  "parseCastling [] r = (False, r)"
| "parseCastling (c # cs) r =
     (if c = CHR ''K'' then parseCastling cs (r\<lparr>cK := True\<rparr>)
      else if c = CHR ''Q'' then parseCastling cs (r\<lparr>cQ := True\<rparr>)
      else if c = CHR ''k'' then parseCastling cs (r\<lparr>ck := True\<rparr>)
      else if c = CHR ''q'' then parseCastling cs (r\<lparr>cq := True\<rparr>)
      else (True, r))"

definition noCastling :: rights where
  \<comment> \<open>\<open>{ K: false, Q: false, k: false, q: false }\<close>\<close>
  "noCastling = \<lparr>cK = False, cQ = False, ck = False, cq = False\<rparr>"

definition setRepetitionFromLine :: "64 word list \<Rightarrow> 64 word \<Rightarrow> nat option" where
  "setRepetitionFromLine line =
     foldl (\<lambda>r h. r(h \<mapsto> repCount r h + 1)) Map.empty line"

definition nthField :: "string list \<Rightarrow> nat \<Rightarrow> string option" where
  \<comment> \<open>array destructuring: a missing field is \<open>undefined\<close>\<close>
  "nthField parts i = (if i < length parts then Some (parts ! i) else None)"

definition clockOf :: "string option \<Rightarrow> nat \<Rightarrow> nat" where
  \<comment> \<open>\<open>Number(field)\<close> with the default for a missing, non-finite or too small value\<close>
  "clockOf field least =
     (case field of
        None \<Rightarrow> least
      | Some tok \<Rightarrow> (case jsNumber tok of None \<Rightarrow> least | Some n \<Rightarrow> if n < least then least else n))"

definition plainClock :: "string option \<Rightarrow> bool" where
  \<comment> \<open>a clock field that is missing, or a decimal numeral below \<open>2^53\<close>\<close>
  "plainClock field =
     (case field of
        None \<Rightarrow> True
      | Some tok \<Rightarrow> (case jsNumber tok of None \<Rightarrow> False | Some n \<Rightarrow> n < 2 ^ 53))"

definition plainClocks :: "string \<Rightarrow> bool" where
  "plainClocks fen = (plainClock (nthField (fenFields fen) 4) \<and> plainClock (nthField (fenFields fen) 5))"

definition finishLoad :: "string list \<Rightarrow> int \<Rightarrow> int \<Rightarrow> position \<Rightarrow> position" where
  \<comment> \<open>the assignments after the last check of \<open>loadFEN\<close>\<close>
  "finishLoad parts wk bk s =
     (let s = s\<lparr>halfmove := clockOf (nthField parts 4) 0, fullmove := clockOf (nthField parts 5) 1\<rparr>;
          s = s\<lparr>wKing := wk, bKing := bk\<rparr>;
          s = s\<lparr>hash := computeHash s\<rparr>;
          s = s\<lparr>hashLine := [hash s]\<rparr>
      in s\<lparr>rep := setRepetitionFromLine (hashLine s)\<rparr>)"

definition loadTail :: "string list \<Rightarrow> int \<Rightarrow> int \<Rightarrow> position \<Rightarrow> fen_error option \<times> position" where
  \<comment> \<open>\<open>loadFEN\<close> from the check of the side to move on\<close>
  "loadTail parts wk bk s =
     (let turnT = parts ! 1; castT = parts ! 2; epT = parts ! 3 in
      if turnT \<noteq> ''w'' \<and> turnT \<noteq> ''b'' then (Some BadTurn, s)
      else
        let s = s\<lparr>turn := (if turnT = ''w'' then White else Black)\<rparr>;
            (bad, r) = (if castT \<noteq> ''-'' then parseCastling castT noCastling else (False, noCastling));
            s = s\<lparr>castling := r\<rparr>
        in if bad then (Some BadCastling, s)
           else if epT = ''-'' then (None, finishLoad parts wk bk (s\<lparr>ep := None\<rparr>))
           else (case squareToIndex epT of
                   None \<Rightarrow> (Some BadEnPassant, s)
                 | Some e \<Rightarrow> (None, finishLoad parts wk bk (s\<lparr>ep := Some e\<rparr>))))"

definition loadFEN :: "string \<Rightarrow> position \<Rightarrow> fen_error option \<times> position" where
  \<comment> \<open>the error thrown, if any, and the engine as the call leaves it\<close>
  "loadFEN fen s =
     (let parts = fenFields fen in
      if length parts < 4 then (Some TooFewFields, s)
      else
        let rows = splitOn (CHR ''/'') (parts ! 0) in
        if length rows \<noteq> 8 then (Some BadPlacement, s)
        else
          (case parseRows 0 rows (map (\<lambda>_. None) (board s)) None None of
             (Some e, b, wk, bk) \<Rightarrow> (Some e, s\<lparr>board := b\<rparr>)
           | (None, b, wk, bk) \<Rightarrow>
               (case (wk, bk) of
                  (Some w, Some k) \<Rightarrow> loadTail parts w k (s\<lparr>board := b\<rparr>)
                | _ \<Rightarrow> (Some MissingKing, s\<lparr>board := b\<rparr>))))"

section \<open>Field-by-field reading of the move applier\<close>

definition capKey :: "move \<Rightarrow> piece option \<Rightarrow> 64 word" where
  "capKey mv cap =
     (case cap of None \<Rightarrow> 0
      | Some c \<Rightarrow> (case captureSquare mv of None \<Rightarrow> 0 | Some q \<Rightarrow> zobrist_piece (pieceIndex c) q))"

definition capBoard :: "move \<Rightarrow> piece option \<Rightarrow> cells \<Rightarrow> cells" where
  "capBoard mv cap b =
     (case cap of None \<Rightarrow> b
      | Some c \<Rightarrow> (case captureSquare mv of None \<Rightarrow> b | Some q \<Rightarrow> put b q None))"

definition rookSquares :: "move \<Rightarrow> color \<Rightarrow> int \<times> int" where
  "rookSquares mv t =
     (if t = White then (if castleSide mv = Some KSide then (63, 61) else (56, 59))
      else (if castleSide mv = Some KSide then (7, 5) else (0, 3)))"

definition rookKey :: "move \<Rightarrow> color \<Rightarrow> 64 word" where
  "rookKey mv t =
     (if isCastle mv
      then zobrist_piece (pieceIndex (Piece t Rook)) (fst (rookSquares mv t)) XOR
           zobrist_piece (pieceIndex (Piece t Rook)) (snd (rookSquares mv t))
      else 0)"

definition castleBoard :: "move \<Rightarrow> color \<Rightarrow> cells \<Rightarrow> cells" where
  "castleBoard mv t b =
     (if isCastle mv
      then put (put b (fst (rookSquares mv t)) None) (snd (rookSquares mv t)) (Some (Piece t Rook))
      else b)"

definition epAfter :: "move \<Rightarrow> int option" where
  "epAfter mv =
     (if typeOf (m_piece mv) = Pawn \<and> \<bar>m_to mv - m_from mv\<bar> = 16
      then Some ((m_to mv + m_from mv) div 2) else None)"

lemma hashOutOld_fields [simp]:
  "board (hashOutOld s) = board s"
  "turn (hashOutOld s) = turn s"
  "castling (hashOutOld s) = castling s"
  "ep (hashOutOld s) = ep s"
  "halfmove (hashOutOld s) = halfmove s"
  "fullmove (hashOutOld s) = fullmove s"
  "wKing (hashOutOld s) = wKing s"
  "bKing (hashOutOld s) = bKing s"
  "hash (hashOutOld s) = xorEp (ep s) (hash s) XOR zobrist_castle (castleMaskFromRights (castling s))"
  "rep (hashOutOld s) = rep s"
  "hashLine (hashOutOld s) = hashLine s"
  "position.more (hashOutOld s) = position.more s"
  by (simp_all add: hashOutOld_def )

lemma liftPiece_fields [simp]:
  "board (liftPiece mv s) = put (board s) (m_from mv) None"
  "turn (liftPiece mv s) = turn s"
  "castling (liftPiece mv s) = castling s"
  "ep (liftPiece mv s) = ep s"
  "halfmove (liftPiece mv s) = halfmove s"
  "fullmove (liftPiece mv s) = fullmove s"
  "wKing (liftPiece mv s) = wKing s"
  "bKing (liftPiece mv s) = bKing s"
  "hash (liftPiece mv s) = hash s XOR zobrist_piece (pieceIndex (m_piece mv)) (m_from mv)"
  "rep (liftPiece mv s) = rep s"
  "hashLine (liftPiece mv s) = hashLine s"
  "position.more (liftPiece mv s) = position.more s"
  by (simp_all add: liftPiece_def )

lemma removeCaptured_fields [simp]:
  "board (removeCaptured mv cap s) = capBoard mv cap (board s)"
  "turn (removeCaptured mv cap s) = turn s"
  "castling (removeCaptured mv cap s) = castling s"
  "ep (removeCaptured mv cap s) = ep s"
  "halfmove (removeCaptured mv cap s) = halfmove s"
  "fullmove (removeCaptured mv cap s) = fullmove s"
  "wKing (removeCaptured mv cap s) = wKing s"
  "bKing (removeCaptured mv cap s) = bKing s"
  "hash (removeCaptured mv cap s) = hash s XOR capKey mv cap"
  "rep (removeCaptured mv cap s) = rep s"
  "hashLine (removeCaptured mv cap s) = hashLine s"
  "position.more (removeCaptured mv cap s) = position.more s"
  by (simp_all add: removeCaptured_def capKey_def capBoard_def split: option.split)

lemma placePiece_fields [simp]:
  "board (placePiece mv s) = put (board s) (m_to mv) (Some (placedPiece mv (turn s)))"
  "turn (placePiece mv s) = turn s"
  "castling (placePiece mv s) = castling s"
  "ep (placePiece mv s) = ep s"
  "halfmove (placePiece mv s) = halfmove s"
  "fullmove (placePiece mv s) = fullmove s"
  "wKing (placePiece mv s) = wKing s"
  "bKing (placePiece mv s) = bKing s"
  "hash (placePiece mv s) = hash s XOR zobrist_piece (pieceIndex (placedPiece mv (turn s))) (m_to mv)"
  "rep (placePiece mv s) = rep s"
  "hashLine (placePiece mv s) = hashLine s"
  "position.more (placePiece mv s) = position.more s"
  by (simp_all add: placePiece_def )

lemma trackKing_fields [simp]:
  "board (trackKing mv s) = board s"
  "turn (trackKing mv s) = turn s"
  "castling (trackKing mv s) = castling s"
  "ep (trackKing mv s) = ep s"
  "halfmove (trackKing mv s) = halfmove s"
  "fullmove (trackKing mv s) = fullmove s"
  "wKing (trackKing mv s) = (if typeOf (m_piece mv) = King \<and> turn s = White then m_to mv else wKing s)"
  "bKing (trackKing mv s) = (if typeOf (m_piece mv) = King \<and> turn s \<noteq> White then m_to mv else bKing s)"
  "hash (trackKing mv s) = hash s"
  "rep (trackKing mv s) = rep s"
  "hashLine (trackKing mv s) = hashLine s"
  "position.more (trackKing mv s) = position.more s"
  by (simp_all add: trackKing_def )

lemma castleRook_fields [simp]:
  "board (castleRook mv s) = castleBoard mv (turn s) (board s)"
  "turn (castleRook mv s) = turn s"
  "castling (castleRook mv s) = castling s"
  "ep (castleRook mv s) = ep s"
  "halfmove (castleRook mv s) = halfmove s"
  "fullmove (castleRook mv s) = fullmove s"
  "wKing (castleRook mv s) = wKing s"
  "bKing (castleRook mv s) = bKing s"
  "hash (castleRook mv s) = hash s XOR rookKey mv (turn s)"
  "rep (castleRook mv s) = rep s"
  "hashLine (castleRook mv s) = hashLine s"
  "position.more (castleRook mv s) = position.more s"
  by (cases "turn s"; simp add: castleRook_def rookKey_def castleBoard_def moveRookHash_def rookSquares_def)+

lemma newRights_fields [simp]:
  "board (newRights mv cap s) = board s"
  "turn (newRights mv cap s) = turn s"
  "castling (newRights mv cap s) = updateCastlingRightsAfterMove (m_from mv) (m_to mv) (m_piece mv) cap (castling s)"
  "ep (newRights mv cap s) = ep s"
  "halfmove (newRights mv cap s) = halfmove s"
  "fullmove (newRights mv cap s) = fullmove s"
  "wKing (newRights mv cap s) = wKing s"
  "bKing (newRights mv cap s) = bKing s"
  "hash (newRights mv cap s) = hash s"
  "rep (newRights mv cap s) = rep s"
  "hashLine (newRights mv cap s) = hashLine s"
  "position.more (newRights mv cap s) = position.more s"
  by (simp_all add: newRights_def )

lemma newEp_fields [simp]:
  "board (newEp mv s) = board s"
  "turn (newEp mv s) = turn s"
  "castling (newEp mv s) = castling s"
  "ep (newEp mv s) = epAfter mv"
  "halfmove (newEp mv s) = halfmove s"
  "fullmove (newEp mv s) = fullmove s"
  "wKing (newEp mv s) = wKing s"
  "bKing (newEp mv s) = bKing s"
  "hash (newEp mv s) = hash s"
  "rep (newEp mv s) = rep s"
  "hashLine (newEp mv s) = hashLine s"
  "position.more (newEp mv s) = position.more s"
  by (simp_all add: newEp_def epAfter_def)

lemma hashInNew_fields [simp]:
  "board (hashInNew s) = board s"
  "turn (hashInNew s) = turn s"
  "castling (hashInNew s) = castling s"
  "ep (hashInNew s) = ep s"
  "halfmove (hashInNew s) = halfmove s"
  "fullmove (hashInNew s) = fullmove s"
  "wKing (hashInNew s) = wKing s"
  "bKing (hashInNew s) = bKing s"
  "hash (hashInNew s) = xorEp (ep s) (hash s XOR zobrist_castle (castleMaskFromRights (castling s)))"
  "rep (hashInNew s) = rep s"
  "hashLine (hashInNew s) = hashLine s"
  "position.more (hashInNew s) = position.more s"
  by (simp_all add: hashInNew_def )

lemma newClocks_fields [simp]:
  "board (newClocks mv cap s) = board s"
  "turn (newClocks mv cap s) = turn s"
  "castling (newClocks mv cap s) = castling s"
  "ep (newClocks mv cap s) = ep s"
  "halfmove (newClocks mv cap s) = (if typeOf (m_piece mv) = Pawn \<or> cap \<noteq> None then 0 else halfmove s + 1)"
  "fullmove (newClocks mv cap s) = (if turn s = Black then fullmove s + 1 else fullmove s)"
  "wKing (newClocks mv cap s) = wKing s"
  "bKing (newClocks mv cap s) = bKing s"
  "hash (newClocks mv cap s) = hash s"
  "rep (newClocks mv cap s) = rep s"
  "hashLine (newClocks mv cap s) = hashLine s"
  "position.more (newClocks mv cap s) = position.more s"
  by (simp_all add: newClocks_def )

lemma flipSide_fields [simp]:
  "board (flipSide s) = board s"
  "turn (flipSide s) = opponent (turn s)"
  "castling (flipSide s) = castling s"
  "ep (flipSide s) = ep s"
  "halfmove (flipSide s) = halfmove s"
  "fullmove (flipSide s) = fullmove s"
  "wKing (flipSide s) = wKing s"
  "bKing (flipSide s) = bKing s"
  "hash (flipSide s) = hash s XOR zobrist_side"
  "rep (flipSide s) = rep s"
  "hashLine (flipSide s) = hashLine s"
  "position.more (flipSide s) = position.more s"
  by (simp_all add: flipSide_def )

lemma pushHistory_fields [simp]:
  "board (pushHistory tr s) = board s"
  "turn (pushHistory tr s) = turn s"
  "castling (pushHistory tr s) = castling s"
  "ep (pushHistory tr s) = ep s"
  "halfmove (pushHistory tr s) = halfmove s"
  "fullmove (pushHistory tr s) = fullmove s"
  "wKing (pushHistory tr s) = wKing s"
  "bKing (pushHistory tr s) = bKing s"
  "hash (pushHistory tr s) = hash s"
  "rep (pushHistory tr s) = (if tr then (rep s)(hash s \<mapsto> repCount (rep s) (hash s) + 1) else rep s)"
  "hashLine (pushHistory tr s) = (if tr then hashLine s @ [hash s] else hashLine s)"
  "position.more (pushHistory tr s) = position.more s"
  by (simp_all add: pushHistory_def )

lemma popHistory_fields [simp]:
  "board (popHistory tr s) = board s"
  "turn (popHistory tr s) = turn s"
  "castling (popHistory tr s) = castling s"
  "ep (popHistory tr s) = ep s"
  "halfmove (popHistory tr s) = halfmove s"
  "fullmove (popHistory tr s) = fullmove s"
  "wKing (popHistory tr s) = wKing s"
  "bKing (popHistory tr s) = bKing s"
  "hash (popHistory tr s) = hash s"
  "rep (popHistory tr s) = (if tr then (if int (repCount (rep s) (hash s)) - 1 \<le> 0 then (rep s)(hash s := None) else (rep s)(hash s \<mapsto> nat (int (repCount (rep s) (hash s)) - 1))) else rep s)"
  "hashLine (popHistory tr s) = (if tr then butlast (hashLine s) else hashLine s)"
  "position.more (popHistory tr s) = position.more s"
  by (simp_all add: popHistory_def Let_def)

lemma restoreFields_fields [simp]:
  "board (restoreFields u s) = board s"
  "turn (restoreFields u s) = prevTurn u"
  "castling (restoreFields u s) = prevCastling u"
  "ep (restoreFields u s) = prevEp u"
  "halfmove (restoreFields u s) = prevHalfmove u"
  "fullmove (restoreFields u s) = prevFullmove u"
  "wKing (restoreFields u s) = prevWKing u"
  "bKing (restoreFields u s) = prevBKing u"
  "hash (restoreFields u s) = prevHash u"
  "rep (restoreFields u s) = rep s"
  "hashLine (restoreFields u s) = hashLine s"
  "position.more (restoreFields u s) = position.more s"
  by (simp_all add: restoreFields_def )


definition boardAfterMake :: "move \<Rightarrow> color \<Rightarrow> cells \<Rightarrow> cells" where
  \<comment> \<open>the board \<open>makeMove\<close> leaves, as a function of the move, \<open>this.turn\<close> and the board\<close>
  "boardAfterMake mv t b =
     castleBoard mv t
       (put (capBoard mv (capturedNow b mv) (put b (m_from mv) None)) (m_to mv)
          (Some (placedPiece mv t)))"

definition touchBoard :: "move \<Rightarrow> color \<Rightarrow> cells \<Rightarrow> cells" where
  \<comment> \<open>the board after \<open>makeMove\<close> and \<open>unmakeMove\<close> of the same move\<close>
  "touchBoard mv t b = restoreBoard mv (capturedNow b mv) t (boardAfterMake mv t b)"

lemma makeMove_fields [simp]:
  "fst (makeMove mv tr s) = mkUndo mv s"
  "board (snd (makeMove mv tr s)) = boardAfterMake mv (turn s) (board s)"
  "turn (snd (makeMove mv tr s)) = opponent (turn s)"
  "castling (snd (makeMove mv tr s)) =
     updateCastlingRightsAfterMove (m_from mv) (m_to mv) (m_piece mv) (capturedNow (board s) mv) (castling s)"
  "ep (snd (makeMove mv tr s)) = epAfter mv"
  "halfmove (snd (makeMove mv tr s)) =
     (if typeOf (m_piece mv) = Pawn \<or> capturedNow (board s) mv \<noteq> None then 0 else halfmove s + 1)"
  "fullmove (snd (makeMove mv tr s)) = (if turn s = Black then fullmove s + 1 else fullmove s)"
  "wKing (snd (makeMove mv tr s)) =
     (if typeOf (m_piece mv) = King \<and> turn s = White then m_to mv else wKing s)"
  "bKing (snd (makeMove mv tr s)) =
     (if typeOf (m_piece mv) = King \<and> turn s \<noteq> White then m_to mv else bKing s)"
  "position.more (snd (makeMove mv tr s)) = position.more s"
  by (simp_all add: makeMove_def Let_def boardAfterMake_def)

lemma makeMove_history [simp]:
  "hashLine (snd (makeMove mv False s)) = hashLine s"
  "rep (snd (makeMove mv False s)) = rep s"
  "hashLine (snd (makeMove mv True s)) = hashLine s @ [hash (snd (makeMove mv True s))]"
  by (simp_all add: makeMove_def Let_def)

lemma hash_makeMove_track: "hash (snd (makeMove mv tr s)) = hash (snd (makeMove mv False s))"
  by (simp add: makeMove_def Let_def)

lemma unmakeMove_fields [simp]:
  "board (unmakeMove u tr s) = restoreBoard (u_move u) (u_captured u) (prevTurn u) (board s)"
  "turn (unmakeMove u tr s) = prevTurn u"
  "castling (unmakeMove u tr s) = prevCastling u"
  "ep (unmakeMove u tr s) = prevEp u"
  "halfmove (unmakeMove u tr s) = prevHalfmove u"
  "fullmove (unmakeMove u tr s) = prevFullmove u"
  "hash (unmakeMove u tr s) = prevHash u"
  "wKing (unmakeMove u tr s) = prevWKing u"
  "bKing (unmakeMove u tr s) = prevBKing u"
  "position.more (unmakeMove u tr s) = position.more s"
  "hashLine (unmakeMove u False s) = hashLine s"
  "rep (unmakeMove u False s) = rep s"
  "hashLine (unmakeMove u True s) = butlast (hashLine s)"
  by (simp_all add: unmakeMove_def Let_def)

lemma mkUndo_fields [simp]:
  "u_move (mkUndo mv s) = mv"
  "prevTurn (mkUndo mv s) = turn s"
  "prevCastling (mkUndo mv s) = castling s"
  "prevEp (mkUndo mv s) = ep s"
  "prevHalfmove (mkUndo mv s) = halfmove s"
  "prevFullmove (mkUndo mv s) = fullmove s"
  "prevHash (mkUndo mv s) = hash s"
  "prevWKing (mkUndo mv s) = wKing s"
  "prevBKing (mkUndo mv s) = bKing s"
  "u_captured (mkUndo mv s) = capturedNow (board s) mv"
  by (simp_all add: mkUndo_def)

lemma unmake_make:
  "unmakeMove (mkUndo mv s) False (snd (makeMove mv False s)) =
     s\<lparr>board := touchBoard mv (turn s) (board s)\<rparr>"
  by (rule position.equality) (simp_all add: touchBoard_def)

section \<open>Boards\<close>

lemma length_put [simp]: "length (put b i v) = length b"
  by (simp add: put_def)

lemma cell_put: "cell (put b i v) j = (if i = j \<and> 0 \<le> i \<and> i < int (length b) then v else cell b j)"
  by (auto simp: cell_def put_def nth_list_update)

lemma cells_eqI: "length a = length b \<Longrightarrow> (\<And>i. cell a i = cell b i) \<Longrightarrow> a = b"
proof (rule nth_equalityI)
  fix i assume len: "length a = length b" and c: "\<And>i. cell a i = cell b i" and i: "i < length a"
  from c[of "int i"] i len show "a ! i = b ! i" by (simp add: cell_def)
qed simp

lemma legalLoop_restoring:
  "(\<And>m. m \<in> set ms \<Longrightarrow> touchBoard m (turn s) (board s) = board s) \<Longrightarrow>
   legalLoop c ms s = (filter (\<lambda>m. \<not> inCheck (snd (makeMove m False s)) c) ms, s)"
proof (induction ms)
  case Nil
  then show ?case by simp
next
  case (Cons m ms)
  have restored: "unmakeMove (mkUndo m s) False (snd (makeMove m False s)) = s"
    using Cons.prems[of m] by (simp add: unmake_make)
  have rest: "legalLoop c ms s = (filter (\<lambda>m. \<not> inCheck (snd (makeMove m False s)) c) ms, s)"
    using Cons.IH Cons.prems by simp
  show ?case
    by (simp add: restored rest split_beta Let_def)
qed

section \<open>What the move generator emits\<close>

definition plainOk :: "cells \<Rightarrow> move \<Rightarrow> bool" where
  "plainOk b m \<longleftrightarrow>
     \<not> isCastle m \<and> \<not> isEnPassant m \<and> onBoard (m_from m) \<and> onBoard (m_to m) \<and>
     m_from m \<noteq> m_to m \<and> cell b (m_from m) = Some (m_piece m) \<and>
     captured m = cell b (m_to m) \<and>
     (cell b (m_to m) = None \<or> isEnemy (cell b (m_to m)) (opponent (colorOf (m_piece m))))"

definition epOk :: "cells \<Rightarrow> int option \<Rightarrow> move \<Rightarrow> bool" where
  "epOk b epSq m \<longleftrightarrow>
     isEnPassant m \<and> \<not> isCastle m \<and> promotion m = None \<and>
     onBoard (m_from m) \<and> onBoard (m_to m) \<and> epSq = Some (m_to m) \<and>
     typeOf (m_piece m) = Pawn \<and> cell b (m_from m) = Some (m_piece m) \<and>
     \<bar>fileOf (m_from m) - fileOf (m_to m)\<bar> = 1 \<and>
     \<not> isEnemy (cell b (m_to m)) (opponent (colorOf (m_piece m))) \<and>
     (\<exists>q. capturedIndex m = Some q \<and> q = m_to m - forwardOf (colorOf (m_piece m)) \<and>
          onBoard q \<and> q \<noteq> m_from m \<and> q \<noteq> m_to m \<and> m_from m \<noteq> m_to m \<and>
          captured m = Some (Piece (opponent (colorOf (m_piece m))) Pawn) \<and>
          cell b q = Some (Piece (opponent (colorOf (m_piece m))) Pawn))"

definition castleOk :: "cells \<Rightarrow> move \<Rightarrow> bool" where
  "castleOk b m \<longleftrightarrow>
     isCastle m \<and> \<not> isEnPassant m \<and> promotion m = None \<and> captured m = None \<and>
     typeOf (m_piece m) = King \<and>
     m_from m = (if colorOf (m_piece m) = White then 60 else 4) \<and>
     cell b (m_from m) = Some (m_piece m) \<and>
     ((castleSide m = Some KSide \<and> m_to m = m_from m + 2 \<and>
       cell b (m_from m + 1) = None \<and> cell b (m_from m + 2) = None \<and>
       cell b (m_from m + 3) = Some (Piece (colorOf (m_piece m)) Rook)) \<or>
      (castleSide m = Some QSide \<and> m_to m = m_from m - 2 \<and>
       cell b (m_from m - 1) = None \<and> cell b (m_from m - 2) = None \<and>
       cell b (m_from m - 3) = None \<and>
       cell b (m_from m - 4) = Some (Piece (colorOf (m_piece m)) Rook)))"

definition pseudoOk :: "position \<Rightarrow> color \<Rightarrow> move \<Rightarrow> bool" where
  "pseudoOk s c m \<longleftrightarrow>
     colorOf (m_piece m) = c \<and>
     (plainOk (board s) m \<or> epOk (board s) (ep s) m \<or> castleOk (board s) m)"

declare slideRay.simps [simp del] scanRay.simps [simp del]

lemma rankOf_iff: "rankOf i = r \<longleftrightarrow> 8 * r \<le> i \<and> i < 8 * r + 8"
  by (auto simp: rankOf_def)

lemma cell_Some_onBoard: "length b = 64 \<Longrightarrow> cell b i = Some p \<Longrightarrow> onBoard i"
  by (auto simp: cell_def onBoard_def split: if_splits)

lemma isEnemy_Some [simp]: "isEnemy (Some p) c \<longleftrightarrow> colorOf p = c"
  by (simp add: isEnemy_def)

lemma isEnemy_None [simp]: "\<not> isEnemy None c"
  by (simp add: isEnemy_def)

lemma opponent_opponent [simp]: "opponent (opponent c) = c"
  by (cases c) simp_all

lemma opponent_neq [simp]: "opponent c \<noteq> c" "c \<noteq> opponent c"
  by (cases c; simp)+

lemma pawnPushes_ok:
  assumes "m \<in> set (pawnPushes b c from piece)" "cell b from = Some piece" "onBoard from"
  shows "plainOk b m \<and> m_piece m = piece \<and> m_from m = from"
  using assms
  by (auto simp: pawnPushes_def Let_def plain_def plainOk_def forwardOf_def startRankOf_def
      onBoard_def rankOf_iff split: if_splits)

lemma pawnCapture_ok:
  assumes "m \<in> set (pawnCapture b e c from piece d)" "cell b from = Some piece" "onBoard from"
    "colorOf piece = c" "typeOf piece = Pawn" "length b = 64"
    "d \<in> set (if c = White then [-9, -7] else [7, 9])"
  shows "(plainOk b m \<or> epOk b e m) \<and> m_piece m = piece \<and> m_from m = from"
proof -
  let ?to = "from + d"
  have d: "d \<noteq> 0" "?to - forwardOf c \<noteq> from" "?to - forwardOf c \<noteq> ?to"
    using assms(7) by (auto simp: forwardOf_def split: if_splits)
  show ?thesis
  proof (cases "isEnemy (cell b ?to) (opponent c)")
    case True
    with assms d show ?thesis
      by (auto simp: pawnCapture_def Let_def plain_def plainOk_def split: if_splits)
  next
    case False
    with assms(1) have e: "e = Some ?to" "onBoard ?to" "\<bar>fileOf from - fileOf ?to\<bar> = 1"
      and ex: "\<exists>cp. cell b (?to - forwardOf c) = Some cp \<and> typeOf cp = Pawn \<and> colorOf cp = opponent c"
      and m: "m = \<lparr>m_from = from, m_to = ?to, m_piece = piece, captured = cell b (?to - forwardOf c),
                   capturedIndex = Some (?to - forwardOf c), promotion = None, isCastle = False,
                   castleSide = None, isEnPassant = True, isDoublePawn = False\<rparr>"
      by (auto simp: pawnCapture_def Let_def split: if_splits option.splits intro: sym)
    from ex obtain cp where cp: "cell b (?to - forwardOf c) = Some cp" "typeOf cp = Pawn" "colorOf cp = opponent c"
      by blast
    then have cpe: "cp = Piece (opponent c) Pawn" by (cases cp) simp
    have ob: "onBoard (?to - forwardOf c)" using cell_Some_onBoard[OF assms(6) cp(1)] .
    show ?thesis
      using False e m cp cpe ob d assms(2-5)
      by (simp add: epOk_def)
  qed
qed

lemma stepMove_ok:
  assumes "m \<in> set (stepMove b c from piece shape d)" "cell b from = Some piece" "onBoard from"
    "colorOf piece = c" "d \<noteq> 0"
  shows "plainOk b m \<and> m_piece m = piece \<and> m_from m = from"
  using assms
  by (auto simp: stepMove_def Let_def plain_def plainOk_def split: if_splits)

lemma slideRay_shape:
  "m \<in> set (slideRay b c from piece d to) \<Longrightarrow>
   d \<noteq> 0 \<and> (0 < d \<longrightarrow> to \<le> m_to m) \<and> (d < 0 \<longrightarrow> m_to m \<le> to) \<and> onBoard (m_to m) \<and>
   m = plain from (m_to m) piece (cell b (m_to m)) None \<and>
   (cell b (m_to m) = None \<or> isEnemy (cell b (m_to m)) (opponent c))"
proof (induction b c "from" piece d to rule: slideRay.induct)
  case (1 b c "from" piece d to)
  note unf = slideRay.simps[of b c "from" piece d to]
  show ?case
  proof (cases "d = 0 \<or> \<not> onBoard to \<or> wraps d to")
    case True
    with "1.prems" show ?thesis by (subst (asm) unf) (auto split: if_splits)
  next
    case False
    show ?thesis
    proof (cases "cell b to")
      case None
      with False "1.prems" have "m = plain from to piece None None \<or> m \<in> set (slideRay b c from piece d (to + d))"
        by (subst (asm) unf) (auto split: if_splits)
      then show ?thesis
      proof
        assume "m = plain from to piece None None"
        with False None show ?thesis by (auto simp: plain_def)
      next
        assume "m \<in> set (slideRay b c from piece d (to + d))"
        from "1.IH"[OF _ _ None this] False show ?thesis by auto
      qed
    next
      case (Some t)
      with False "1.prems" have "colorOf t = opponent c \<and> m = plain from to piece (Some t) None"
        by (subst (asm) unf) (auto split: if_splits)
      with False Some show ?thesis by (auto simp: plain_def)
    qed
  qed
qed

lemma slideRay_ok:
  assumes "m \<in> set (slideRay b c from piece d (from + d))" "cell b from = Some piece" "onBoard from"
    "colorOf piece = c"
  shows "plainOk b m \<and> m_piece m = piece \<and> m_from m = from"
proof -
  from slideRay_shape[OF assms(1)]
  have s: "d \<noteq> 0" "0 < d \<longrightarrow> from + d \<le> m_to m" "d < 0 \<longrightarrow> m_to m \<le> from + d" "onBoard (m_to m)"
    "m = plain from (m_to m) piece (cell b (m_to m)) None"
    "cell b (m_to m) = None \<or> isEnemy (cell b (m_to m)) (opponent c)" by auto
  have ne: "from \<noteq> m_to m" using s(1-3) by (cases "0 < d") auto
  have f: "m_from m = from" "m_piece m = piece" "captured m = cell b (m_to m)" "\<not> isCastle m" "\<not> isEnPassant m"
    by (subst s(5), simp add: plain_def)+
  show ?thesis using s(4,6) ne f assms by (simp add: plainOk_def)
qed

lemma castle_ok_K:
  assumes "canCastle s c from KSide" "cell (board s) from = Some piece" "colorOf piece = c"
    "typeOf piece = King"
  shows "castleOk (board s) (castleMove from (if c = White then 62 else 6) piece KSide)"
  using assms
  by (cases c) (auto simp: canCastle_def Let_def castleOk_def castleMove_def split: if_splits)

lemma castle_ok_Q:
  assumes "canCastle s c from QSide" "cell (board s) from = Some piece" "colorOf piece = c"
    "typeOf piece = King"
  shows "castleOk (board s) (castleMove from (if c = White then 58 else 2) piece QSide)"
  using assms
  by (cases c) (auto simp: canCastle_def Let_def castleOk_def castleMove_def split: if_splits)

lemma in_upto_onBoard: "q \<in> set [0..63] \<Longrightarrow> onBoard q"
  by (simp add: onBoard_def)

lemma movesFrom_ok:
  assumes "m \<in> set (movesFrom s c from)" "onBoard from" "length (board s) = 64"
  shows "pseudoOk s c m"
proof -
  from assms(1) have "\<exists>piece. cell (board s) from = Some piece \<and> colorOf piece = c"
    by (cases "cell (board s) from") (auto simp: movesFrom_def split: if_splits)
  then obtain piece where p: "cell (board s) from = Some piece" "colorOf piece = c"
    by blast
  have k: "plainOk (board s) m \<or> epOk (board s) (ep s) m \<or> castleOk (board s) m"
    and mp: "m_piece m = piece"
  proof -
    consider (pawn) "typeOf piece = Pawn" | (knight) "typeOf piece = Knight"
      | (king) "typeOf piece = King"
      | (slider) "typeOf piece \<noteq> Pawn" "typeOf piece \<noteq> Knight" "typeOf piece \<noteq> King"
      by blast
    then have "(plainOk (board s) m \<or> epOk (board s) (ep s) m \<or> castleOk (board s) m) \<and> m_piece m = piece"
    proof cases
      case pawn
      with assms(1) p have "m \<in> set (pawnMoves (board s) (ep s) c from piece)"
        by (simp add: movesFrom_def)
      then consider "m \<in> set (pawnPushes (board s) c from piece)"
        | d where "d \<in> set (if c = White then [-9, -7] else [7, 9])"
            "m \<in> set (pawnCapture (board s) (ep s) c from piece d)"
        by (auto simp: pawnMoves_def)
      then show ?thesis
      proof cases
        case 1
        from pawnPushes_ok[OF 1 p(1) assms(2)] show ?thesis by simp
      next
        case 2
        from pawnCapture_ok[OF 2(2) p(1) assms(2) p(2) pawn assms(3) 2(1)] show ?thesis by blast
      qed
    next
      case knight
      with assms(1) p obtain d where "d \<in> set knightD"
        "m \<in> set (stepMove (board s) c from piece knightShape d)"
        by (auto simp: movesFrom_def)
      moreover from this(1) have "d \<noteq> 0" by (auto simp: knightD_def)
      ultimately show ?thesis using stepMove_ok[OF _ p(1) assms(2) p(2)] by blast
    next
      case king
      with assms(1) p have "m \<in> set (kingMoves s c from piece)"
        by (simp add: movesFrom_def)
      then consider d where "d \<in> set kingD" "m \<in> set (stepMove (board s) c from piece kingShape d)"
        | "canCastle s c from KSide" "m = castleMove from (if c = White then 62 else 6) piece KSide"
        | "canCastle s c from QSide" "m = castleMove from (if c = White then 58 else 2) piece QSide"
        by (auto simp: kingMoves_def split: if_splits)
      then show ?thesis
      proof cases
        case 1
        from 1(1) have "d \<noteq> 0" by (auto simp: kingD_def)
        with 1 show ?thesis using stepMove_ok[OF _ p(1) assms(2) p(2)] by blast
      next
        case 2
        from castle_ok_K[OF 2(1) p(1) p(2) king] 2(2) show ?thesis by (simp add: castleMove_def)
      next
        case 3
        from castle_ok_Q[OF 3(1) p(1) p(2) king] 3(2) show ?thesis by (simp add: castleMove_def)
      qed
    next
      case slider
      with assms(1) p obtain d where
        "m \<in> set (slideRay (board s) c from piece d (from + d))"
        by (cases "typeOf piece") (auto simp: movesFrom_def)
      from slideRay_ok[OF this p(1) assms(2) p(2)] show ?thesis by simp
    qed
    then show "plainOk (board s) m \<or> epOk (board s) (ep s) m \<or> castleOk (board s) m"
      and "m_piece m = piece" by simp_all
  qed
  show ?thesis using k mp p(2) by (simp add: pseudoOk_def)
qed

lemma generatePseudoMoves_ok:
  assumes "m \<in> set (generatePseudoMoves s c)" "length (board s) = 64"
  shows "pseudoOk s c m"
proof -
  from assms(1) obtain q where "q \<in> set [0..63]" "m \<in> set (movesFrom s c q)"
    by (auto simp: generatePseudoMoves_def)
  with movesFrom_ok[OF this(2) in_upto_onBoard[OF this(1)] assms(2)] show ?thesis by simp
qed

lemma touch_plain:
  assumes "plainOk b m" "length b = 64"
  shows "touchBoard m t b = b"
proof (rule cells_eqI)
  fix i
  from assms show "cell (touchBoard m t b) i = cell b i"
    by (cases "cell b (m_to m)")
       (auto simp: plainOk_def touchBoard_def restoreBoard_def boardAfterMake_def capBoard_def
        castleBoard_def capturedNow_def captureSquare_def cell_put onBoard_def)
qed (simp add: touchBoard_def restoreBoard_def boardAfterMake_def capBoard_def castleBoard_def
      Let_def split: option.splits)

lemma touch_ep:
  assumes "epOk b e m" "length b = 64" "cell b (m_to m) = None"
  shows "touchBoard m t b = b"
proof (rule cells_eqI)
  fix i
  from assms show "cell (touchBoard m t b) i = cell b i"
    by (auto simp: epOk_def touchBoard_def restoreBoard_def boardAfterMake_def capBoard_def
        castleBoard_def capturedNow_def captureSquare_def cell_put onBoard_def)
qed (simp add: touchBoard_def restoreBoard_def boardAfterMake_def capBoard_def castleBoard_def
      Let_def split: option.splits)

lemma touch_castle:
  assumes "castleOk b m" "length b = 64" "colorOf (m_piece m) = t"
  shows "touchBoard m t b = b"
proof (rule cells_eqI)
  fix i
  from assms show "cell (touchBoard m t b) i = cell b i"
    by (cases t)
       (auto simp: castleOk_def touchBoard_def restoreBoard_def boardAfterMake_def capBoard_def
        castleBoard_def capturedNow_def captureSquare_def cell_put rookSquares_def)
qed (simp add: touchBoard_def restoreBoard_def boardAfterMake_def capBoard_def castleBoard_def
      Let_def split: option.splits)

definition kingAfter :: "move \<Rightarrow> color \<Rightarrow> color \<Rightarrow> int \<Rightarrow> int \<Rightarrow> int" where
  "kingAfter m t c w k =
     (if c = White then (if typeOf (m_piece m) = King \<and> t = White then m_to m else w)
      else (if typeOf (m_piece m) = King \<and> t \<noteq> White then m_to m else k))"

definition exposesKing :: "cells \<Rightarrow> color \<Rightarrow> int \<Rightarrow> int \<Rightarrow> color \<Rightarrow> move \<Rightarrow> bool" where
  "exposesKing b t w k c m =
     squareAttacked (boardAfterMake m t b) (kingAfter m t c w k) (opponent c)"

fun legalBoards :: "color \<Rightarrow> color \<Rightarrow> int \<Rightarrow> int \<Rightarrow> move list \<Rightarrow> cells \<Rightarrow> move list \<times> cells" where
  "legalBoards c t w k [] b = ([], b)"
| "legalBoards c t w k (m # ms) b =
     (let ok = \<not> exposesKing b t w k c m;
          (legal, b') = legalBoards c t w k ms (touchBoard m t b)
      in (if ok then m # legal else legal, b'))"

lemma inCheck_makeMove:
  "inCheck (snd (makeMove m tr s)) c = exposesKing (board s) (turn s) (wKing s) (bKing s) c m"
  by (simp add: inCheck_def isSquareAttacked_def kingSquare_def exposesKing_def kingAfter_def)

lemma legalLoop_boards:
  "legalLoop c ms s =
     (fst (legalBoards c (turn s) (wKing s) (bKing s) ms (board s)),
      s\<lparr>board := snd (legalBoards c (turn s) (wKing s) (bKing s) ms (board s))\<rparr>)"
proof (induction ms arbitrary: s)
  case Nil
  show ?case by simp
next
  case (Cons m ms)
  show ?case
    by (simp add: split_beta Let_def unmake_make inCheck_makeMove Cons.IH touchBoard_def)
qed

text \<open>
  The move generator reads the board, the en-passant target, the castling rights and the
  cached king squares only; \<open>pseudoOn\<close> is \<open>generatePseudoMoves\<close> as a function of these.
\<close>

definition bare :: "cells \<Rightarrow> color \<Rightarrow> rights \<Rightarrow> int option \<Rightarrow> int \<Rightarrow> int \<Rightarrow> position" where
  "bare b t r e w k =
     \<lparr>board = b, turn = t, castling = r, ep = e, halfmove = 0, fullmove = 1, wKing = w,
      bKing = k, hash = 0, rep = Map.empty, hashLine = []\<rparr>"

definition pseudoOn :: "cells \<Rightarrow> rights \<Rightarrow> int option \<Rightarrow> int \<Rightarrow> int \<Rightarrow> color \<Rightarrow> move list" where
  "pseudoOn b r e w k c = generatePseudoMoves (bare b White r e w k) c"

definition legalOn ::
  "cells \<Rightarrow> color \<Rightarrow> rights \<Rightarrow> int option \<Rightarrow> int \<Rightarrow> int \<Rightarrow> color \<Rightarrow> move list \<times> cells" where
  "legalOn b t r e w k c = legalBoards c t w k (pseudoOn b r e w k c) b"

lemma kingMoves_cong:
  assumes "board s = board s'" "castling s = castling s'" "wKing s = wKing s'" "bKing s = bKing s'"
  shows "kingMoves s c q p = kingMoves s' c q p"
  by (simp only: kingMoves_def canCastle_def inCheck_def isSquareAttacked_def kingSquare_def assms)

lemma movesFrom_cong:
  assumes "board s = board s'" "castling s = castling s'" "ep s = ep s'"
    "wKing s = wKing s'" "bKing s = bKing s'"
  shows "movesFrom s c q = movesFrom s' c q"
  by (simp only: movesFrom_def kingMoves_cong[OF assms(1,2,4,5)] assms(1,3))

lemma movesFrom_on:
  "movesFrom s c q = movesFrom (bare (board s) White (castling s) (ep s) (wKing s) (bKing s)) c q"
  by (rule movesFrom_cong) (simp_all add: bare_def)

lemma generatePseudoMoves_on:
  "generatePseudoMoves s c = pseudoOn (board s) (castling s) (ep s) (wKing s) (bKing s) c"
proof -
  have "movesFrom s c = movesFrom (bare (board s) White (castling s) (ep s) (wKing s) (bKing s)) c"
    by (rule ext) (rule movesFrom_on)
  then show ?thesis by (simp only: pseudoOn_def generatePseudoMoves_def)
qed

lemma generateLegalMoves_on:
  "generateLegalMoves s c =
     (fst (legalOn (board s) (turn s) (castling s) (ep s) (wKing s) (bKing s) c),
      s\<lparr>board := snd (legalOn (board s) (turn s) (castling s) (ep s) (wKing s) (bKing s) c)\<rparr>)"
  by (simp add: generateLegalMoves_def legalLoop_boards legalOn_def generatePseudoMoves_on)

lemma finishLoad_fields [simp]:
  "board (finishLoad parts wk bk s) = board s"
  "turn (finishLoad parts wk bk s) = turn s"
  "castling (finishLoad parts wk bk s) = castling s"
  "ep (finishLoad parts wk bk s) = ep s"
  "wKing (finishLoad parts wk bk s) = wk"
  "bKing (finishLoad parts wk bk s) = bk"
  "halfmove (finishLoad parts wk bk s) = clockOf (nthField parts 4) 0"
  "fullmove (finishLoad parts wk bk s) = clockOf (nthField parts 5) 1"
  "hashLine (finishLoad parts wk bk s) = [hash (finishLoad parts wk bk s)]"
  "rep (finishLoad parts wk bk s) = setRepetitionFromLine [hash (finishLoad parts wk bk s)]"
  by (simp_all add: finishLoad_def Let_def)

section \<open>Apply and revert\<close>

definition wellFormed :: "position \<Rightarrow> bool" where
  "wellFormed s \<longleftrightarrow>
     length (board s) = 64 \<and> (case ep s of None \<Rightarrow> True | Some e \<Rightarrow> cell (board s) e = None)"

definition applyRevert :: "move \<Rightarrow> bool \<Rightarrow> position \<Rightarrow> position" where
  "applyRevert m trackHistory s =
     (let (undo, s1) = makeMove m trackHistory s in unmakeMove undo trackHistory s1)"

definition legalMoves :: "position \<Rightarrow> color \<Rightarrow> move list" where
  "legalMoves s c = fst (generateLegalMoves s c)"

lemma touch_pseudo:
  assumes "wellFormed s" "pseudoOk s (turn s) m"
  shows "touchBoard m (turn s) (board s) = board s"
proof -
  from assms(1) have len: "length (board s) = 64" by (simp add: wellFormed_def)
  from assms(2) consider "plainOk (board s) m" | "epOk (board s) (ep s) m" | "castleOk (board s) m"
    by (auto simp: pseudoOk_def)
  then show ?thesis
  proof cases
    case 1 then show ?thesis using len by (rule touch_plain)
  next
    case 2
    then have "ep s = Some (m_to m)" by (simp add: epOk_def)
    with assms(1) have "cell (board s) (m_to m) = None" by (simp add: wellFormed_def)
    from touch_ep[OF 2 len this] show ?thesis .
  next
    case 3
    with len assms(2) show ?thesis by (intro touch_castle) (auto simp: pseudoOk_def)
  qed
qed

lemma legalLoop_subset: "set (fst (legalLoop c ms s)) \<subseteq> set ms"
  by (induction ms arbitrary: s) (auto simp: split_beta Let_def)

lemma legal_subset_pseudo: "set (legalMoves s c) \<subseteq> set (generatePseudoMoves s c)"
  by (simp add: legalMoves_def generateLegalMoves_def legalLoop_subset)

lemma generateLegalMoves_onTurn:
  assumes "wellFormed s"
  shows "generateLegalMoves s (turn s) =
           (filter (\<lambda>m. \<not> inCheck (snd (makeMove m False s)) (turn s)) (generatePseudoMoves s (turn s)), s)"
  unfolding generateLegalMoves_def
proof (rule legalLoop_restoring)
  fix m assume "m \<in> set (generatePseudoMoves s (turn s))"
  with assms have "pseudoOk s (turn s) m"
    by (intro generatePseudoMoves_ok) (simp_all add: wellFormed_def)
  with assms show "touchBoard m (turn s) (board s) = board s" by (rule touch_pseudo)
qed

lemma inCheck_makeMove_track: "inCheck (snd (makeMove m tr s)) c = inCheck (snd (makeMove m False s)) c"
  by (simp add: inCheck_def isSquareAttacked_def kingSquare_def)

lemma applyRevert_fields:
  "board (applyRevert m tr s) = touchBoard m (turn s) (board s)"
  "turn (applyRevert m tr s) = turn s"
  "castling (applyRevert m tr s) = castling s"
  "ep (applyRevert m tr s) = ep s"
  "halfmove (applyRevert m tr s) = halfmove s"
  "fullmove (applyRevert m tr s) = fullmove s"
  "hash (applyRevert m tr s) = hash s"
  "wKing (applyRevert m tr s) = wKing s"
  "bKing (applyRevert m tr s) = bKing s"
  "hashLine (applyRevert m tr s) = hashLine s"
  by (cases tr; simp add: applyRevert_def split_beta touchBoard_def)+

text \<open>A small position for concrete checks: white king h1, black king a8, black rook g8,
  white to move. The king may go to h2 only; g1 and g2 are on the rook's file.\<close>

definition emptyBoard :: cells where
  "emptyBoard = replicate 64 None"

definition rookEnding :: cells where
  "rookEnding =
     put (put (put emptyBoard 63 (Some (Piece White King))) 0 (Some (Piece Black King))) 6
       (Some (Piece Black Rook))"

definition noRights :: rights where
  "noRights = \<lparr>cK = False, cQ = False, ck = False, cq = False\<rparr>"

definition w0 :: position where
  "w0 = \<lparr>board = rookEnding, turn = White, castling = noRights, ep = None,
          halfmove = 0, fullmove = 1, wKing = 63, bKing = 0, hash = 0, rep = Map.empty,
          hashLine = []\<rparr>"

definition kingTo :: "int \<Rightarrow> move" where
  "kingTo q = plain 63 q (Piece White King) None None"

lemma w0_fields [simp]:
  "board w0 = rookEnding" "turn w0 = White" "wKing w0 = 63" "bKing w0 = 0" "ep w0 = None"
  by (simp_all add: w0_def)

lemma w0_wellFormed: "wellFormed w0"
  by (simp add: wellFormed_def rookEnding_def emptyBoard_def)

lemma w0_pseudo: "generatePseudoMoves w0 White = [kingTo 54, kingTo 55, kingTo 62]"
  by code_simp

lemma rookEnding_legal:
  "legalBoards White White 63 0 [kingTo 54, kingTo 55, kingTo 62] rookEnding = ([kingTo 55], rookEnding)"
  by code_simp

lemma legalMoves_boards:
  "legalMoves s c =
     fst (legalBoards c (turn s) (wKing s) (bKing s) (generatePseudoMoves s c) (board s))"
  by (simp add: legalMoves_def generateLegalMoves_def legalLoop_boards)

lemma w0_legal: "legalMoves w0 White = [kingTo 55]"
  by (simp only: legalMoves_boards w0_fields w0_pseudo rookEnding_legal fst_conv)

lemma w0_exposed: "exposesKing rookEnding White 63 0 White (kingTo 62)"
  by code_simp

lemma w0_safe: "\<not> exposesKing rookEnding White 63 0 White (kingTo 55)"
  by code_simp

text \<open>
  Claim C2. In a well-formed position (a board of 64 cells whose en-passant target square,
  when there is one, is empty), for every move returned by \<open>generateLegalMoves\<close> for the side
  to move, \<open>makeMove\<close> followed at once by \<open>unmakeMove\<close> with the undo record it returned
  gives back the board, the castling rights, the en-passant target, both clocks, the hash
  and both cached king squares (and the side to move and the hash history), whether or not
  the history is tracked.
\<close>

theorem makeMove_unmakeMove_identity:
  assumes "wellFormed s" and "m \<in> set (legalMoves s (turn s))"
  shows "board (applyRevert m tr s) = board s \<and>
         castling (applyRevert m tr s) = castling s \<and>
         ep (applyRevert m tr s) = ep s \<and>
         halfmove (applyRevert m tr s) = halfmove s \<and>
         fullmove (applyRevert m tr s) = fullmove s \<and>
         hash (applyRevert m tr s) = hash s \<and>
         wKing (applyRevert m tr s) = wKing s \<and>
         bKing (applyRevert m tr s) = bKing s \<and>
         turn (applyRevert m tr s) = turn s \<and>
         hashLine (applyRevert m tr s) = hashLine s"
proof -
  from assms(2) legal_subset_pseudo have "m \<in> set (generatePseudoMoves s (turn s))" by blast
  with assms(1) have "pseudoOk s (turn s) m"
    by (intro generatePseudoMoves_ok) (simp_all add: wellFormed_def)
  with assms(1) have "touchBoard m (turn s) (board s) = board s" by (rule touch_pseudo)
  then show ?thesis by (simp add: applyRevert_fields)
qed

theorem makeMove_unmakeMove_identity_witness:
  "wellFormed w0 \<and> kingTo 55 \<in> set (legalMoves w0 (turn w0)) \<and>
   board (applyRevert (kingTo 55) True w0) = board w0 \<and>
   castling (applyRevert (kingTo 55) True w0) = castling w0 \<and>
   ep (applyRevert (kingTo 55) True w0) = ep w0 \<and>
   halfmove (applyRevert (kingTo 55) True w0) = halfmove w0 \<and>
   fullmove (applyRevert (kingTo 55) True w0) = fullmove w0 \<and>
   hash (applyRevert (kingTo 55) True w0) = hash w0 \<and>
   wKing (applyRevert (kingTo 55) True w0) = wKing w0 \<and>
   bKing (applyRevert (kingTo 55) True w0) = bKing w0"
proof -
  have lg: "kingTo 55 \<in> set (legalMoves w0 (turn w0))" by (simp add: w0_legal)
  from makeMove_unmakeMove_identity[OF w0_wellFormed lg, of True] w0_wellFormed lg
  show ?thesis by simp
qed

section \<open>The hash, recomputed and maintained\<close>

definition keyAt :: "piece option \<Rightarrow> int \<Rightarrow> 64 word" where
  "keyAt c q = (case c of None \<Rightarrow> 0 | Some p \<Rightarrow> zobrist_piece (pieceIndex p) q)"

definition boardHash :: "cells \<Rightarrow> 64 word" where
  "boardHash b = foldl (\<lambda>h i. h XOR cellKey b i) 0 [0..<64]"

definition epKey :: "int option \<Rightarrow> 64 word" where
  "epKey e = (case e of None \<Rightarrow> 0 | Some q \<Rightarrow> zobrist_epFile (fileOf q))"

definition sideKey :: "color \<Rightarrow> 64 word" where
  "sideKey t = (if t = Black then zobrist_side else 0)"

lemma xorEp_epKey: "xorEp e h = h XOR epKey e"
  by (simp add: xorEp_def epKey_def split: option.split)

lemma computeHash_parts:
  "computeHash s =
     boardHash (board s) XOR sideKey (turn s) XOR
     zobrist_castle (castleMaskFromRights (castling s)) XOR epKey (ep s)"
  by (simp add: computeHash_def boardHash_def sideKey_def epKey_def Let_def ac_simps
      split: option.split)

lemma xor_foldl_start: "foldl (\<lambda>h j. h XOR f j) (a::64 word) xs = a XOR foldl (\<lambda>h j. h XOR f j) 0 xs"
proof (induction xs arbitrary: a)
  case Nil
  show ?case by simp
next
  case (Cons x xs)
  show ?case
    by (simp add: Cons.IH[of "a XOR f x"] Cons.IH[of "f x"] ac_simps)
qed

lemma xor_foldl_same:
  "(\<And>j. j \<in> set xs \<Longrightarrow> g j = f j) \<Longrightarrow>
   foldl (\<lambda>h j. h XOR g j) (a::64 word) xs = foldl (\<lambda>h j. h XOR f j) a xs"
  by (induction xs arbitrary: a) simp_all

lemma xor_foldl_update:
  assumes "distinct xs" "i \<in> set xs" "\<And>j. j \<in> set xs \<Longrightarrow> j \<noteq> i \<Longrightarrow> g j = f j"
  shows "foldl (\<lambda>h j. h XOR g j) (a::64 word) xs = foldl (\<lambda>h j. h XOR f j) a xs XOR f i XOR g i"
  using assms
proof (induction xs arbitrary: a)
  case Nil
  then show ?case by simp
next
  case (Cons x xs)
  show ?case
  proof (cases "x = i")
    case True
    have same: "foldl (\<lambda>h j. h XOR g j) c xs = foldl (\<lambda>h j. h XOR f j) c xs" for c
      by (rule xor_foldl_same) (use Cons.prems True in auto)
    show ?thesis
      using True
      by (simp add: same xor_foldl_start[of f "a XOR g i"] xor_foldl_start[of f "a XOR f i"] ac_simps)
  next
    case False
    with Cons.prems have "i \<in> set xs" "distinct xs" "g x = f x" by auto
    with Cons.IH[of "a XOR f x"] Cons.prems(3) show ?thesis by simp
  qed
qed

lemma cellKey_keyAt: "cellKey b i = keyAt (cell b (int i)) (int i)"
  by (simp add: cellKey_def keyAt_def)

lemma boardHash_put:
  assumes "length b = 64" "onBoard q"
  shows "boardHash (put b q v) = boardHash b XOR keyAt (cell b q) q XOR keyAt v q"
proof -
  from assms(2) have q: "nat q \<in> set [0..<64]" "int (nat q) = q" by (auto simp: onBoard_def)
  have "foldl (\<lambda>h j. h XOR cellKey (put b q v) j) 0 [0..<64] =
        foldl (\<lambda>h j. h XOR cellKey b j) 0 [0..<64] XOR cellKey b (nat q) XOR cellKey (put b q v) (nat q)"
    by (rule xor_foldl_update[OF _ q(1)]) (auto simp: cellKey_keyAt cell_put)
  moreover have "cellKey b (nat q) = keyAt (cell b q) q"
    using assms(2) by (simp add: cellKey_keyAt onBoard_def)
  moreover have "cellKey (put b q v) (nat q) = keyAt v q"
    using assms by (simp add: cellKey_keyAt cell_put onBoard_def)
  ultimately show ?thesis by (simp only: boardHash_def)
qed

lemma hash_makeMove:
  "hash (snd (makeMove m tr s)) =
     hash s XOR epKey (ep s) XOR zobrist_castle (castleMaskFromRights (castling s)) XOR
     zobrist_piece (pieceIndex (m_piece m)) (m_from m) XOR capKey m (capturedNow (board s) m) XOR
     zobrist_piece (pieceIndex (placedPiece m (turn s))) (m_to m) XOR rookKey m (turn s) XOR
     zobrist_castle (castleMaskFromRights (castling (snd (makeMove m tr s)))) XOR
     epKey (epAfter m) XOR zobrist_side"
  by (simp add: makeMove_def Let_def xorEp_epKey ac_simps)

lemma sideKey_opponent: "sideKey (opponent t) = sideKey t XOR zobrist_side"
  by (cases t) (simp_all add: sideKey_def)

lemma boardHash_plain:
  assumes "plainOk b m" "length b = 64"
  shows "boardHash (boardAfterMake m t b) =
           boardHash b XOR zobrist_piece (pieceIndex (m_piece m)) (m_from m) XOR
           capKey m (capturedNow b m) XOR
           zobrist_piece (pieceIndex (placedPiece m t)) (m_to m) XOR rookKey m t"
  using assms
  by (cases "cell b (m_to m)")
     (simp_all add: plainOk_def boardAfterMake_def capBoard_def castleBoard_def capturedNow_def
      captureSquare_def capKey_def rookKey_def boardHash_put cell_put keyAt_def onBoard_def ac_simps)

lemma boardHash_ep:
  assumes "epOk b e m" "length b = 64" "cell b (m_to m) = None"
  shows "boardHash (boardAfterMake m t b) =
           boardHash b XOR zobrist_piece (pieceIndex (m_piece m)) (m_from m) XOR
           capKey m (capturedNow b m) XOR
           zobrist_piece (pieceIndex (placedPiece m t)) (m_to m) XOR rookKey m t"
proof -
  from assms(1) obtain q where q: "capturedIndex m = Some q" "onBoard q" "q \<noteq> m_from m"
    "q \<noteq> m_to m" "m_from m \<noteq> m_to m"
    "cell b q = Some (Piece (opponent (colorOf (m_piece m))) Pawn)"
    by (auto simp: epOk_def)
  from assms(1) have f: "isEnPassant m" "\<not> isCastle m" "onBoard (m_from m)" "onBoard (m_to m)"
    "cell b (m_from m) = Some (m_piece m)"
    by (simp_all add: epOk_def)
  have cap: "capturedNow b m = Some (Piece (opponent (colorOf (m_piece m))) Pawn)"
    "captureSquare m = Some q"
    using q f by (simp_all add: capturedNow_def captureSquare_def)
  have bd: "boardAfterMake m t b =
      put (put (put b (m_from m) None) q None) (m_to m) (Some (placedPiece m t))"
    using f cap by (simp add: boardAfterMake_def capBoard_def castleBoard_def)
  have c1: "cell (put b (m_from m) None) q = cell b q"
    using q by (simp add: cell_put)
  have c2: "cell (put (put b (m_from m) None) q None) (m_to m) = None"
    using q assms(3) by (simp add: cell_put)
  show ?thesis
    unfolding bd
    using assms(2) f q
    by (simp add: boardHash_put c1 c2 cap capKey_def rookKey_def keyAt_def ac_simps)
qed

lemma boardHash_castle:
  assumes "castleOk b m" "length b = 64" "colorOf (m_piece m) = t"
  shows "boardHash (boardAfterMake m t b) =
           boardHash b XOR zobrist_piece (pieceIndex (m_piece m)) (m_from m) XOR
           capKey m (capturedNow b m) XOR
           zobrist_piece (pieceIndex (placedPiece m t)) (m_to m) XOR rookKey m t"
proof -
  from assms(1) have f: "isCastle m" "\<not> isEnPassant m" "promotion m = None"
    "cell b (m_from m) = Some (m_piece m)" "m_from m = (if t = White then 60 else 4)"
    using assms(3) by (auto simp: castleOk_def)
  define r1 where "r1 = fst (rookSquares m t)"
  define r2 where "r2 = snd (rookSquares m t)"
  from assms(1,3) f(5) have sq: "onBoard (m_from m)" "onBoard (m_to m)" "onBoard r1" "onBoard r2"
    "m_from m \<noteq> m_to m" "r1 \<noteq> m_from m" "r1 \<noteq> m_to m" "r2 \<noteq> m_from m" "r2 \<noteq> m_to m" "r1 \<noteq> r2"
    "cell b (m_to m) = None" "cell b r1 = Some (Piece t Rook)" "cell b r2 = None"
    by (cases t; auto simp: castleOk_def rookSquares_def r1_def r2_def onBoard_def)+
  have cap: "capturedNow b m = None"
    using f sq by (simp add: capturedNow_def captureSquare_def)
  have bd: "boardAfterMake m t b =
      put (put (put (put b (m_from m) None) (m_to m) (Some (m_piece m))) r1 None) r2 (Some (Piece t Rook))"
    using f cap by (simp add: boardAfterMake_def capBoard_def castleBoard_def placedPiece_def r1_def r2_def)
  have rk: "rookKey m t = zobrist_piece (pieceIndex (Piece t Rook)) r1 XOR zobrist_piece (pieceIndex (Piece t Rook)) r2"
    using f by (simp add: rookKey_def r1_def r2_def)
  show ?thesis
    unfolding bd rk
    using assms(2) f(3,4) sq
    by (simp add: boardHash_put cell_put cap capKey_def keyAt_def placedPiece_def ac_simps)
qed

lemma boardHash_pseudo:
  assumes "wellFormed s" "pseudoOk s (turn s) m"
  shows "boardHash (boardAfterMake m (turn s) (board s)) =
           boardHash (board s) XOR zobrist_piece (pieceIndex (m_piece m)) (m_from m) XOR
           capKey m (capturedNow (board s) m) XOR
           zobrist_piece (pieceIndex (placedPiece m (turn s))) (m_to m) XOR rookKey m (turn s)"
proof -
  from assms(1) have len: "length (board s) = 64" by (simp add: wellFormed_def)
  from assms(2) consider "plainOk (board s) m" | "epOk (board s) (ep s) m" | "castleOk (board s) m"
    by (auto simp: pseudoOk_def)
  then show ?thesis
  proof cases
    case 1 from boardHash_plain[OF 1 len] show ?thesis .
  next
    case 2
    then have "ep s = Some (m_to m)" by (simp add: epOk_def)
    with assms(1) have "cell (board s) (m_to m) = None" by (simp add: wellFormed_def)
    from boardHash_ep[OF 2 len this] show ?thesis .
  next
    case 3
    from assms(2) have "colorOf (m_piece m) = turn s" by (simp add: pseudoOk_def)
    from boardHash_castle[OF 3 len this] show ?thesis .
  qed
qed

lemma makeMove_hash_ok:
  assumes "wellFormed s" "pseudoOk s (turn s) m" "hash s = computeHash s"
  shows "hash (snd (makeMove m tr s)) = computeHash (snd (makeMove m tr s))"
  by (simp add: hash_makeMove computeHash_parts[of "snd (makeMove m tr s)"] assms(3)
      computeHash_parts[of s] boardHash_pseudo[OF assms(1,2)] sideKey_opponent ac_simps)

lemma computeHash_cong:
  "board s = board s' \<Longrightarrow> turn s = turn s' \<Longrightarrow> castling s = castling s' \<Longrightarrow> ep s = ep s' \<Longrightarrow>
   computeHash s = computeHash s'"
  by (simp add: computeHash_def)

lemma finishLoad_hash: "hash (finishLoad parts wk bk s) = computeHash (finishLoad parts wk bk s)"
proof -
  have "hash (finishLoad parts wk bk s) =
      computeHash (s\<lparr>halfmove := clockOf (nthField parts 4) 0,
                      fullmove := clockOf (nthField parts 5) 1, wKing := wk, bKing := bk\<rparr>)"
    by (simp add: finishLoad_def Let_def)
  also have "\<dots> = computeHash (finishLoad parts wk bk s)"
    by (rule computeHash_cong) simp_all
  finally show ?thesis .
qed

lemma loadFEN_success_tail:
  assumes "loadFEN fen s = (None, s')"
  shows "\<exists>parts wk bk s1. s' = finishLoad parts wk bk s1"
  using assms
  by (auto simp: loadFEN_def loadTail_def Let_def split: if_splits prod.splits option.splits)

lemma loadFEN_hash_ok: "loadFEN fen s = (None, s') \<Longrightarrow> hash s' = computeHash s'"
  using loadFEN_success_tail finishLoad_hash by blast

section \<open>Import of a position string that fails\<close>





lemma emptyFen_fields:
  "fenFields ''8/8/8/8/8/8/8/8 w - - 0 1'' = [''8/8/8/8/8/8/8/8'', ''w'', ''-'', ''-'', ''0'', ''1'']"
  by code_simp

lemma emptyFen_rows: "splitOn (CHR ''/'') ''8/8/8/8/8/8/8/8'' = [''8'', ''8'', ''8'', ''8'', ''8'', ''8'', ''8'', ''8'']"
  by code_simp

lemma digitVal_digits [simp]:
  "digitVal CHR ''0'' = Some 0" "digitVal CHR ''1'' = Some 1" "digitVal CHR ''2'' = Some 2"
  "digitVal CHR ''3'' = Some 3" "digitVal CHR ''4'' = Some 4" "digitVal CHR ''5'' = Some 5"
  "digitVal CHR ''6'' = Some 6" "digitVal CHR ''7'' = Some 7" "digitVal CHR ''8'' = Some 8"
  "digitVal CHR ''9'' = Some 9"
  by (simp_all add: digitVal_def Let_def)

lemma parseRow_eight: "parseRow r ''8'' 0 b wk bk = (None, 8, b, wk, bk)"
  by simp

lemma loadFEN_empty:
  "loadFEN ''8/8/8/8/8/8/8/8 w - - 0 1'' s = (Some MissingKing, s\<lparr>board := map (\<lambda>_. None) (board s)\<rparr>)"
  by (simp add: loadFEN_def emptyFen_fields emptyFen_rows parseRow_eight)

text \<open>Two bare kings on their home squares, as \<open>loadFEN\<close> sets them up.\<close>

definition kingsBoard :: cells where
  "kingsBoard = put (put (replicate 64 None) 4 (Some (Piece Black King))) 60 (Some (Piece White King))"

definition kingsPosition :: position where
  "kingsPosition = finishLoad [] 60 4 (bare kingsBoard White noCastling None 0 0)"

lemma kings_fields [simp]:
  "board kingsPosition = kingsBoard" "turn kingsPosition = White"
  "castling kingsPosition = noCastling" "ep kingsPosition = None"
  "wKing kingsPosition = 60" "bKing kingsPosition = 4"
  by (simp_all add: kingsPosition_def bare_def)

lemma kingsBoard_cleared: "map (\<lambda>_. None) kingsBoard = replicate 64 None"
  by (simp add: kingsBoard_def put_def map_replicate_const)

lemma cell_replicate_None [simp]: "cell (replicate n None) q = None"
  by (auto simp: cell_def)





section \<open>Concrete positions as loaded strings\<close>

text \<open>
  A successful \<open>loadFEN\<close> overwrites every field, so what it leaves is fixed by the string
  alone, whatever the engine held before (the board array keeps its 64 cells).
\<close>

lemma position_eqI:
  assumes "board s = board s'" "turn s = turn s'" "castling s = castling s'" "ep s = ep s'"
    "halfmove s = halfmove s'" "fullmove s = fullmove s'" "wKing s = wKing s'" "bKing s = bKing s'"
    "hash s = hash s'" "rep s = rep s'" "hashLine s = hashLine s'"
  shows "s = (s' :: position)"
  using assms by (intro position.equality) simp_all

lemma finishLoad_cong:
  assumes "board s = board s'" "turn s = turn s'" "castling s = castling s'" "ep s = ep s'"
    "clockOf (nthField parts 4) 0 = clockOf (nthField parts' 4) 0"
    "clockOf (nthField parts 5) 1 = clockOf (nthField parts' 5) 1"
  shows "finishLoad parts wk bk s = finishLoad parts' wk bk s'"
proof -
  have h: "hash (finishLoad parts wk bk s) = hash (finishLoad parts' wk bk s')"
    unfolding finishLoad_hash
    by (rule computeHash_cong) (simp_all add: assms)
  show ?thesis
  proof (rule position_eqI)
    show "halfmove (finishLoad parts wk bk s) = halfmove (finishLoad parts' wk bk s')"
      by (simp only: finishLoad_fields assms(5))
    show "fullmove (finishLoad parts wk bk s) = fullmove (finishLoad parts' wk bk s')"
      by (simp only: finishLoad_fields assms(6))
    show "rep (finishLoad parts wk bk s) = rep (finishLoad parts' wk bk s')"
      by (simp only: finishLoad_fields h)
    show "hashLine (finishLoad parts wk bk s) = hashLine (finishLoad parts' wk bk s')"
      by (simp only: finishLoad_fields h)
  qed (simp_all add: assms(1-4) h)
qed

lemma loadFEN_parts:
  assumes "fenFields fen = [pl, tn, ca, e, hm, fm]"
    and "splitOn (CHR ''/'') pl = rows" and "length rows = 8"
    and "length (board s) = 64"
    and "parseRows 0 rows (replicate 64 None) None None = (None, b, Some w, Some k)"
  shows "loadFEN fen s = loadTail [pl, tn, ca, e, hm, fm] w k (s\<lparr>board := b\<rparr>)"
proof -
  have clr: "map (\<lambda>_. None) (board s) = replicate 64 None"
    using assms(4) by (simp add: map_replicate_const)
  show ?thesis
    by (simp add: loadFEN_def assms(1,2,3,5) clr del: parseRows.simps)
qed

lemma kingsFen_fields:
  "fenFields ''4k3/8/8/8/8/8/8/4K3 w - - 0 1'' = [''4k3/8/8/8/8/8/8/4K3'', ''w'', ''-'', ''-'', ''0'', ''1'']"
  by code_simp

lemma kingsFen_rows: "splitOn (CHR ''/'') ''4k3/8/8/8/8/8/8/4K3'' = [''4k3'', ''8'', ''8'', ''8'', ''8'', ''8'', ''8'', ''4K3'']"
  by code_simp

lemma kingsFen_parse:
  "parseRows 0 [''4k3'', ''8'', ''8'', ''8'', ''8'', ''8'', ''8'', ''4K3''] (replicate 64 None) None None =
     (None, kingsBoard, Some 60, Some 4)"
  by code_simp

lemma loadFEN_kings:
  assumes "length (board s) = 64"
  shows "loadFEN ''4k3/8/8/8/8/8/8/4K3 w - - 0 1'' s = (None, kingsPosition)"
proof -
  have "loadFEN ''4k3/8/8/8/8/8/8/4K3 w - - 0 1'' s =
      loadTail [''4k3/8/8/8/8/8/8/4K3'', ''w'', ''-'', ''-'', ''0'', ''1''] 60 4 (s\<lparr>board := kingsBoard\<rparr>)"
    by (rule loadFEN_parts[OF kingsFen_fields kingsFen_rows _ assms kingsFen_parse]) simp
  also have "\<dots> = (None, finishLoad [''4k3/8/8/8/8/8/8/4K3'', ''w'', ''-'', ''-'', ''0'', ''1''] 60 4
         (s\<lparr>board := kingsBoard, turn := White, castling := noCastling, ep := None\<rparr>))"
    by (simp add: loadTail_def Let_def)
  also have "finishLoad [''4k3/8/8/8/8/8/8/4K3'', ''w'', ''-'', ''-'', ''0'', ''1''] 60 4
         (s\<lparr>board := kingsBoard, turn := White, castling := noCastling, ep := None\<rparr>) = kingsPosition"
    unfolding kingsPosition_def
    by (rule finishLoad_cong) (simp_all add: bare_def clockOf_def nthField_def jsNumber_def)
  finally show ?thesis .
qed

section \<open>Classification of the game result\<close>

definition historyConsistent :: "position \<Rightarrow> bool" where
  \<comment> \<open>the repetition map counts the occurrences in the recorded hash history\<close>
  "historyConsistent s \<longleftrightarrow> (\<forall>h. repCount (rep s) h = count_list (hashLine s) h)"

lemma repCount_upd [simp]: "repCount (r(h \<mapsto> n)) k = (if k = h then n else repCount r k)"
  by (simp add: repCount_def)

lemma repCount_empty [simp]: "repCount Map.empty k = 0"
  by (simp add: repCount_def)

lemma count_list_snoc: "count_list (xs @ [x]) k = count_list xs k + (if x = k then 1 else 0)"
  by (induction xs) auto



lemma historyConsistent_makeMove:
  assumes "historyConsistent s"
  shows "historyConsistent (snd (makeMove m tr s))"
proof (cases tr)
  case False
  with assms show ?thesis by (simp add: historyConsistent_def)
next
  case True
  with assms show ?thesis
    by (simp add: historyConsistent_def makeMove_def Let_def count_list_snoc)
qed

lemma historyConsistent_unmake_untracked:
  "historyConsistent s \<Longrightarrow> historyConsistent (unmakeMove u False s)"
  by (simp add: historyConsistent_def)

lemma getGameResult_state:
  "wellFormed s \<Longrightarrow> snd (getGameResult s) = s"
  by (simp add: getGameResult_def generateLegalMoves_onTurn)


text \<open>A back-rank mate: white rook a8, white king g6, black king g8, Black to move, with
  the halfmove clock at 100.\<close>

definition matedBoard :: cells where
  "matedBoard =
     [Some (Piece White Rook), None, None, None, None, None, Some (Piece Black King), None,
      None, None, None, None, None, None, None, None,
      None, None, None, None, None, None, Some (Piece White King), None,
      None, None, None, None, None, None, None, None,
      None, None, None, None, None, None, None, None,
      None, None, None, None, None, None, None, None,
      None, None, None, None, None, None, None, None,
      None, None, None, None, None, None, None, None]"

definition matedPosition :: position where
  "matedPosition = finishLoad [[], [], [], [], ''100''] 22 6 (bare matedBoard Black noCastling None 0 0)"

lemma mated_fields [simp]:
  "board matedPosition = matedBoard" "turn matedPosition = Black"
  "castling matedPosition = noCastling" "ep matedPosition = None"
  "wKing matedPosition = 22" "bKing matedPosition = 6"
  by (simp_all add: matedPosition_def bare_def)




section \<open>The hash after every mutation\<close>

lemma boardHash_empty: "boardHash (replicate 64 None) = 0"
  by code_simp

lemma boardHash_kings:
  "boardHash kingsBoard = zobrist_piece 11 4 XOR zobrist_piece 5 60"
  by (simp add: kingsBoard_def boardHash_put boardHash_empty cell_put keyAt_def onBoard_def)

lemma kings_keys_differ: "zobrist_piece 11 4 XOR zobrist_piece 5 60 \<noteq> 0"
  by code_simp

lemma xor_eq_right: "(a XOR r = (r::64 word)) \<longleftrightarrow> a = 0"
  by (metis bit.xor_left_self xor.commute xor.right_neutral)

text \<open>
  Claim C3 as stated fails after a \<open>loadFEN\<close> that is refused: the board has been cleared,
  the hash is the old one.
\<close>

theorem hash_stale_after_failed_load:
  "fst (loadFEN ''8/8/8/8/8/8/8/8 w - - 0 1'' kingsPosition) = Some MissingKing \<and>
   hash kingsPosition = computeHash kingsPosition \<and>
   hash (snd (loadFEN ''8/8/8/8/8/8/8/8 w - - 0 1'' kingsPosition)) \<noteq>
     computeHash (snd (loadFEN ''8/8/8/8/8/8/8/8 w - - 0 1'' kingsPosition))"
proof -
  have h: "hash kingsPosition = computeHash kingsPosition"
    unfolding kingsPosition_def by (rule finishLoad_hash)
  have "computeHash kingsPosition \<noteq> computeHash (kingsPosition\<lparr>board := replicate 64 None\<rparr>)"
    using kings_keys_differ
    by (simp add: computeHash_parts boardHash_kings boardHash_empty xor_eq_right)
  with h show ?thesis by (simp add: loadFEN_empty kingsBoard_cleared)
qed

text \<open>
  Claim C3, amended. The hash equals the value recomputed from the board, the rights, the
  en-passant target and the side to move after every \<open>loadFEN\<close> that succeeds, and, from a
  well-formed position whose hash is right, after \<open>makeMove\<close> of any legal move of the side
  to move and after the \<open>unmakeMove\<close> that takes it back.
\<close>

theorem hash_maintained:
  "(loadFEN fen s0 = (None, s1) \<longrightarrow> hash s1 = computeHash s1) \<and>
   (wellFormed s \<and> hash s = computeHash s \<and> m \<in> set (legalMoves s (turn s)) \<longrightarrow>
      hash (snd (makeMove m tr s)) = computeHash (snd (makeMove m tr s)) \<and>
      hash (applyRevert m tr s) = computeHash (applyRevert m tr s))"
proof (intro conjI impI)
  assume "loadFEN fen s0 = (None, s1)"
  then show "hash s1 = computeHash s1" by (rule loadFEN_hash_ok)
next
  assume a: "wellFormed s \<and> hash s = computeHash s \<and> m \<in> set (legalMoves s (turn s))"
  then have "m \<in> set (generatePseudoMoves s (turn s))" using legal_subset_pseudo by blast
  with a have ok: "pseudoOk s (turn s) m"
    by (intro generatePseudoMoves_ok) (simp_all add: wellFormed_def)
  from a ok show "hash (snd (makeMove m tr s)) = computeHash (snd (makeMove m tr s))"
    by (intro makeMove_hash_ok) simp_all
  from a ok have "touchBoard m (turn s) (board s) = board s" by (intro touch_pseudo) simp_all
  then have "computeHash (applyRevert m tr s) = computeHash s"
    by (intro computeHash_cong) (simp_all add: applyRevert_fields)
  with a show "hash (applyRevert m tr s) = computeHash (applyRevert m tr s)"
    by (simp add: applyRevert_fields)
qed

definition kingStep :: move where
  "kingStep = plain 60 52 (Piece White King) None None"

lemma kings_wellFormed: "wellFormed kingsPosition"
  by (simp add: wellFormed_def kingsBoard_def)

lemma kings_legal: "map (\<lambda>m. (m_from m, m_to m)) (fst (legalOn kingsBoard White noCastling None 60 4 White)) =
    [(60, 51), (60, 52), (60, 53), (60, 59), (60, 61)]"
  by code_simp

lemma kingStep_legal: "kingStep \<in> set (fst (legalOn kingsBoard White noCastling None 60 4 White))"
  by code_simp

theorem hash_maintained_witness:
  "loadFEN ''4k3/8/8/8/8/8/8/4K3 w - - 0 1'' kingsPosition = (None, kingsPosition) \<and>
   hash kingsPosition = computeHash kingsPosition \<and>
   wellFormed kingsPosition \<and> kingStep \<in> set (legalMoves kingsPosition (turn kingsPosition)) \<and>
   hash (snd (makeMove kingStep True kingsPosition)) =
     computeHash (snd (makeMove kingStep True kingsPosition)) \<and>
   hash (applyRevert kingStep True kingsPosition) = computeHash (applyRevert kingStep True kingsPosition)"
proof -
  have ld: "loadFEN ''4k3/8/8/8/8/8/8/4K3 w - - 0 1'' kingsPosition = (None, kingsPosition)"
    by (rule loadFEN_kings) (simp add: kingsBoard_def)
  have lg: "kingStep \<in> set (legalMoves kingsPosition (turn kingsPosition))"
    using kingStep_legal by (simp add: legalMoves_def generateLegalMoves_on)
  from hash_maintained[of "''4k3/8/8/8/8/8/8/4K3 w - - 0 1''" kingsPosition kingsPosition
      kingsPosition kingStep True] ld lg kings_wellFormed
  show ?thesis by blast
qed

section \<open>The king-safety filter\<close>

lemma touch_pseudo_any:
  assumes "wellFormed s" "pseudoOk s c m" "c = t \<or> \<not> isCastle m"
  shows "touchBoard m t (board s) = board s"
proof -
  from assms(1) have len: "length (board s) = 64" by (simp add: wellFormed_def)
  from assms(2) consider "plainOk (board s) m" | "epOk (board s) (ep s) m" | "castleOk (board s) m"
    by (auto simp: pseudoOk_def)
  then show ?thesis
  proof cases
    case 1 then show ?thesis using len by (rule touch_plain)
  next
    case 2
    then have "ep s = Some (m_to m)" by (simp add: epOk_def)
    with assms(1) have "cell (board s) (m_to m) = None" by (simp add: wellFormed_def)
    from touch_ep[OF 2 len this] show ?thesis .
  next
    case 3
    then have "isCastle m" by (simp add: castleOk_def)
    with assms(3) have "c = t" by simp
    with assms(2) have "colorOf (m_piece m) = t" by (simp add: pseudoOk_def)
    with 3 len show ?thesis by (intro touch_castle)
  qed
qed

lemma generateLegalMoves_filter:
  assumes "wellFormed s"
    and "c = turn s \<or> (\<forall>m \<in> set (generatePseudoMoves s c). \<not> isCastle m)"
  shows "generateLegalMoves s c =
           (filter (\<lambda>m. \<not> inCheck (snd (makeMove m False s)) c) (generatePseudoMoves s c), s)"
  unfolding generateLegalMoves_def
proof (rule legalLoop_restoring)
  fix m assume m: "m \<in> set (generatePseudoMoves s c)"
  with assms(1) have ok: "pseudoOk s c m"
    by (intro generatePseudoMoves_ok) (simp_all add: wellFormed_def)
  from assms(2) m have "c = turn s \<or> \<not> isCastle m" by blast
  with assms(1) ok show "touchBoard m (turn s) (board s) = board s" by (rule touch_pseudo_any)
qed

text \<open>
  Two positions that \<open>loadFEN\<close> accepts. In the first, \<open>1n6/8/8/8/3pP3/R3p2k/4P3/K7 b - e3 0 1\<close>,
  the en-passant target e3 holds a black pawn: the trial of d4xe3 e.p. writes a pawn over it
  and \<open>unmakeMove\<close> clears the square, so the black king's moves are then tried with the
  third rank open to the rook on a3. In the second, \<open>4k2r/8/8/8/8/8/7k/K7 w k - 0 1\<close>, the
  last black king read is on h2; Black is not the side to move, so the trial of Black's O-O
  takes its rook squares from White, and \<open>unmakeMove\<close> leaves a white rook on h1.
\<close>

definition blockedEpBoard :: cells where
  "blockedEpBoard =
     put (put (put (put (put (put (put (put (replicate 64 None)
       1 (Some (Piece Black Knight))) 35 (Some (Piece Black Pawn))) 36 (Some (Piece White Pawn)))
       40 (Some (Piece White Rook))) 44 (Some (Piece Black Pawn))) 47 (Some (Piece Black King)))
       52 (Some (Piece White Pawn))) 56 (Some (Piece White King))"

definition blockedEp :: position where
  "blockedEp = finishLoad [] 56 47 (bare blockedEpBoard Black noCastling (Some 44) 0 0)"

definition kingToG3 :: move where
  "kingToG3 = plain 47 46 (Piece Black King) None None"

definition twoKingsBoard :: cells where
  "twoKingsBoard =
     put (put (put (put (replicate 64 None) 4 (Some (Piece Black King))) 7 (Some (Piece Black Rook)))
       55 (Some (Piece Black King))) 56 (Some (Piece White King))"

definition blackKingSide :: rights where
  "blackKingSide = \<lparr>cK = False, cQ = False, ck = True, cq = False\<rparr>"

definition twoKings :: position where
  "twoKings = finishLoad [] 56 55 (bare twoKingsBoard White blackKingSide None 0 0)"

definition rookToH7 :: move where
  "rookToH7 = plain 7 15 (Piece Black Rook) None None"

lemma blockedEp_fields [simp]:
  "board blockedEp = blockedEpBoard" "turn blockedEp = Black" "castling blockedEp = noCastling"
  "ep blockedEp = Some 44" "wKing blockedEp = 56" "bKing blockedEp = 47"
  by (simp_all add: blockedEp_def bare_def)

lemma twoKings_fields [simp]:
  "board twoKings = twoKingsBoard" "turn twoKings = White" "castling twoKings = blackKingSide"
  "ep twoKings = None" "wKing twoKings = 56" "bKing twoKings = 55"
  by (simp_all add: twoKings_def bare_def)

lemma blockedEpFen_fields:
  "fenFields ''1n6/8/8/8/3pP3/R3p2k/4P3/K7 b - e3 0 1'' =
     [''1n6/8/8/8/3pP3/R3p2k/4P3/K7'', ''b'', ''-'', ''e3'', ''0'', ''1'']"
  by code_simp

lemma blockedEpFen_rows:
  "splitOn (CHR ''/'') ''1n6/8/8/8/3pP3/R3p2k/4P3/K7'' =
     [''1n6'', ''8'', ''8'', ''8'', ''3pP3'', ''R3p2k'', ''4P3'', ''K7'']"
  by code_simp

lemma blockedEpFen_parse:
  "parseRows 0 [''1n6'', ''8'', ''8'', ''8'', ''3pP3'', ''R3p2k'', ''4P3'', ''K7'']
     (replicate 64 None) None None = (None, blockedEpBoard, Some 56, Some 47)"
  by code_simp

lemma e3_index: "squareToIndex ''e3'' = Some 44"
  by code_simp

lemma loadFEN_blockedEp:
  assumes "length (board s) = 64"
  shows "loadFEN ''1n6/8/8/8/3pP3/R3p2k/4P3/K7 b - e3 0 1'' s = (None, blockedEp)"
proof -
  have "loadFEN ''1n6/8/8/8/3pP3/R3p2k/4P3/K7 b - e3 0 1'' s =
      loadTail [''1n6/8/8/8/3pP3/R3p2k/4P3/K7'', ''b'', ''-'', ''e3'', ''0'', ''1''] 56 47
        (s\<lparr>board := blockedEpBoard\<rparr>)"
    by (rule loadFEN_parts[OF blockedEpFen_fields blockedEpFen_rows _ assms blockedEpFen_parse]) simp
  also have "\<dots> = (None, finishLoad [''1n6/8/8/8/3pP3/R3p2k/4P3/K7'', ''b'', ''-'', ''e3'', ''0'', ''1''] 56 47
         (s\<lparr>board := blockedEpBoard, turn := Black, castling := noCastling, ep := Some 44\<rparr>))"
    by (simp add: loadTail_def Let_def e3_index)
  also have "finishLoad [''1n6/8/8/8/3pP3/R3p2k/4P3/K7'', ''b'', ''-'', ''e3'', ''0'', ''1''] 56 47
         (s\<lparr>board := blockedEpBoard, turn := Black, castling := noCastling, ep := Some 44\<rparr>) = blockedEp"
    unfolding blockedEp_def
    by (rule finishLoad_cong) (simp_all add: bare_def clockOf_def nthField_def jsNumber_def)
  finally show ?thesis .
qed

lemma twoKingsFen_fields:
  "fenFields ''4k2r/8/8/8/8/8/7k/K7 w k - 0 1'' = [''4k2r/8/8/8/8/8/7k/K7'', ''w'', ''k'', ''-'', ''0'', ''1'']"
  by code_simp

lemma twoKingsFen_rows:
  "splitOn (CHR ''/'') ''4k2r/8/8/8/8/8/7k/K7'' = [''4k2r'', ''8'', ''8'', ''8'', ''8'', ''8'', ''7k'', ''K7'']"
  by code_simp

lemma twoKingsFen_parse:
  "parseRows 0 [''4k2r'', ''8'', ''8'', ''8'', ''8'', ''8'', ''7k'', ''K7'']
     (replicate 64 None) None None = (None, twoKingsBoard, Some 56, Some 55)"
  by code_simp

lemma loadFEN_twoKings:
  assumes "length (board s) = 64"
  shows "loadFEN ''4k2r/8/8/8/8/8/7k/K7 w k - 0 1'' s = (None, twoKings)"
proof -
  have "loadFEN ''4k2r/8/8/8/8/8/7k/K7 w k - 0 1'' s =
      loadTail [''4k2r/8/8/8/8/8/7k/K7'', ''w'', ''k'', ''-'', ''0'', ''1''] 56 55
        (s\<lparr>board := twoKingsBoard\<rparr>)"
    by (rule loadFEN_parts[OF twoKingsFen_fields twoKingsFen_rows _ assms twoKingsFen_parse]) simp
  also have "\<dots> = (None, finishLoad [''4k2r/8/8/8/8/8/7k/K7'', ''w'', ''k'', ''-'', ''0'', ''1''] 56 55
         (s\<lparr>board := twoKingsBoard, turn := White, castling := blackKingSide, ep := None\<rparr>))"
    by (simp add: loadTail_def Let_def noCastling_def blackKingSide_def)
  also have "finishLoad [''4k2r/8/8/8/8/8/7k/K7'', ''w'', ''k'', ''-'', ''0'', ''1''] 56 55
         (s\<lparr>board := twoKingsBoard, turn := White, castling := blackKingSide, ep := None\<rparr>) = twoKings"
    unfolding twoKings_def
    by (rule finishLoad_cong) (simp_all add: bare_def clockOf_def nthField_def jsNumber_def)
  finally show ?thesis .
qed

lemma blockedEp_pseudo:
  "kingToG3 \<in> set (pseudoOn blockedEpBoard noCastling (Some 44) 56 47 Black)"
  by code_simp

lemma blockedEp_legal:
  "kingToG3 \<notin> set (fst (legalOn blockedEpBoard Black noCastling (Some 44) 56 47 Black))"
  by code_simp

lemma blockedEp_safe: "\<not> exposesKing blockedEpBoard Black 56 47 Black kingToG3"
  by code_simp

lemma twoKings_wellFormed: "wellFormed twoKings"
  by (simp add: wellFormed_def twoKingsBoard_def)

lemma twoKings_pseudo: "rookToH7 \<in> set (pseudoOn twoKingsBoard blackKingSide None 56 55 Black)"
  by code_simp

lemma twoKings_legal:
  "rookToH7 \<notin> set (fst (legalOn twoKingsBoard White blackKingSide None 56 55 Black))"
  by code_simp

lemma twoKings_safe: "\<not> exposesKing twoKingsBoard White 56 55 Black rookToH7"
  by code_simp

text \<open>
  Claim C1 as stated fails. In the first position Kh3-g3 is a pseudo-legal move of the side
  to move that \<open>generateLegalMoves\<close> does not return, and applying it leaves Black out of
  check. In the second, which is well formed, the same holds of Rh8-h7 for Black, the side
  not to move.
\<close>

theorem check_safety_fails:
  "loadFEN ''1n6/8/8/8/3pP3/R3p2k/4P3/K7 b - e3 0 1'' kingsPosition = (None, blockedEp) \<and>
   kingToG3 \<in> set (generatePseudoMoves blockedEp (turn blockedEp)) \<and>
   kingToG3 \<notin> set (legalMoves blockedEp (turn blockedEp)) \<and>
   \<not> inCheck (snd (makeMove kingToG3 True blockedEp)) (turn blockedEp) \<and>
   loadFEN ''4k2r/8/8/8/8/8/7k/K7 w k - 0 1'' kingsPosition = (None, twoKings) \<and>
   wellFormed twoKings \<and>
   rookToH7 \<in> set (generatePseudoMoves twoKings Black) \<and>
   rookToH7 \<notin> set (legalMoves twoKings Black) \<and>
   \<not> inCheck (snd (makeMove rookToH7 True twoKings)) Black"
proof -
  have len: "length (board kingsPosition) = 64" by (simp add: kingsBoard_def)
  have a: "kingToG3 \<in> set (generatePseudoMoves blockedEp (turn blockedEp))"
    using blockedEp_pseudo by (simp add: generatePseudoMoves_on)
  have b: "kingToG3 \<notin> set (legalMoves blockedEp (turn blockedEp))"
    using blockedEp_legal by (simp add: legalMoves_def generateLegalMoves_on)
  have c: "\<not> inCheck (snd (makeMove kingToG3 True blockedEp)) (turn blockedEp)"
    using blockedEp_safe by (simp add: inCheck_makeMove)
  have d: "rookToH7 \<in> set (generatePseudoMoves twoKings Black)"
    using twoKings_pseudo by (simp add: generatePseudoMoves_on)
  have e: "rookToH7 \<notin> set (legalMoves twoKings Black)"
    using twoKings_legal by (simp add: legalMoves_def generateLegalMoves_on)
  have f: "\<not> inCheck (snd (makeMove rookToH7 True twoKings)) Black"
    using twoKings_safe by (simp add: inCheck_makeMove)
  from a b c d e f loadFEN_blockedEp[OF len] loadFEN_twoKings[OF len] twoKings_wellFormed
  show ?thesis by simp
qed

text \<open>
  Claim C1, amended. In a well-formed position (a board of 64 cells whose en-passant target
  square, when there is one, is empty), for a colour that is the side to move, or that has
  no castling move among its pseudo-legal moves: every move returned by
  \<open>generateLegalMoves\<close> for that colour leaves it out of check once applied with \<open>makeMove\<close>,
  and every move of \<open>generatePseudoMoves\<close> that is not returned leaves it in check.
\<close>

theorem check_safety:
  assumes "wellFormed s"
    and "c = turn s \<or> (\<forall>m \<in> set (generatePseudoMoves s c). \<not> isCastle m)"
  shows "(\<forall>m \<in> set (legalMoves s c). \<not> inCheck (snd (makeMove m tr s)) c) \<and>
         (\<forall>m \<in> set (generatePseudoMoves s c).
            m \<notin> set (legalMoves s c) \<longrightarrow> inCheck (snd (makeMove m tr s)) c)"
  using generateLegalMoves_filter[OF assms]
  by (simp add: legalMoves_def inCheck_makeMove_track[of _ tr])

definition rookTo :: "int \<Rightarrow> move" where
  "rookTo q = plain 6 q (Piece Black Rook) None None"

lemma w0_black_pseudo:
  "list_all (\<lambda>m. \<not> isCastle m) (pseudoOn rookEnding noRights None 63 0 Black)"
  by code_simp

lemma w0_black_legal: "rookTo 14 \<in> set (fst (legalOn rookEnding White noRights None 63 0 Black))"
  by code_simp

theorem check_safety_witness:
  "wellFormed w0 \<and> kingTo 55 \<in> set (legalMoves w0 (turn w0)) \<and>
   \<not> inCheck (snd (makeMove (kingTo 55) True w0)) (turn w0) \<and>
   kingTo 62 \<in> set (generatePseudoMoves w0 (turn w0)) \<and>
   kingTo 62 \<notin> set (legalMoves w0 (turn w0)) \<and>
   inCheck (snd (makeMove (kingTo 62) True w0)) (turn w0) \<and>
   Black \<noteq> turn w0 \<and> list_all (\<lambda>m. \<not> isCastle m) (generatePseudoMoves w0 Black) \<and>
   rookTo 14 \<in> set (legalMoves w0 Black) \<and>
   \<not> inCheck (snd (makeMove (rookTo 14) True w0)) Black"
proof -
  have lg: "kingTo 55 \<in> set (legalMoves w0 (turn w0))" by (simp add: w0_legal)
  have ps: "kingTo 62 \<in> set (generatePseudoMoves w0 (turn w0))" by (simp add: w0_pseudo)
  have nl: "kingTo 62 \<notin> set (legalMoves w0 (turn w0))" by (simp add: w0_legal kingTo_def plain_def)
  have nc: "list_all (\<lambda>m. \<not> isCastle m) (generatePseudoMoves w0 Black)"
    using w0_black_pseudo by (simp add: generatePseudoMoves_on w0_def)
  then have nc': "\<forall>m \<in> set (generatePseudoMoves w0 Black). \<not> isCastle m"
    by (simp add: list_all_iff)
  have bl: "rookTo 14 \<in> set (legalMoves w0 Black)"
    using w0_black_legal by (simp add: legalMoves_def generateLegalMoves_on w0_def)
  have on: "turn w0 = turn w0 \<or> (\<forall>m \<in> set (generatePseudoMoves w0 (turn w0)). \<not> isCastle m)"
    by simp
  from check_safety[OF w0_wellFormed on, of True] check_safety[OF w0_wellFormed disjI2[OF nc'], of True]
    lg ps nl bl nc w0_wellFormed
  show ?thesis by (simp add: w0_def)
qed

section \<open>The evaluator and the position it is given\<close>

lemma evaluate_on:
  "evaluate s p =
     (let b = board s; t = turn s; r = castling s; e = ep s; w = wKing s; k = bKing s;
          first = legalOn b t r e w k p;
          second = legalOn (snd first) t r e w k (opponent p)
      in (material b p + clamp (int (length (fst first)) - int (length (fst second))) (- 20) 20 * 2,
          s\<lparr>board := snd second\<rparr>))"
  by (simp add: evaluate_def generateLegalMoves_on Let_def)

text \<open>
  A position of an ordinary game: White has castled king-side (king g1, rook f1, pawn f2),
  Black (king e8, rook h8) still may, and it is White's move.
  FEN \<open>4k2r/8/8/8/8/8/5P2/5RK1 w k - 0 1\<close>.
\<close>

definition castledBoard :: cells where
  "castledBoard =
     [None, None, None, None, Some (Piece Black King), None, None, Some (Piece Black Rook),
      None, None, None, None, None, None, None, None,
      None, None, None, None, None, None, None, None,
      None, None, None, None, None, None, None, None,
      None, None, None, None, None, None, None, None,
      None, None, None, None, None, None, None, None,
      None, None, None, None, None, Some (Piece White Pawn), None, None,
      None, None, None, None, None, Some (Piece White Rook), Some (Piece White King), None]"

definition blackShort :: rights where
  "blackShort = \<lparr>cK = False, cQ = False, ck = True, cq = False\<rparr>"

definition castledPosition :: position where
  "castledPosition = finishLoad [] 62 4 (bare castledBoard White blackShort None 0 0)"

definition rookMovedBoard :: cells where
  "rookMovedBoard =
     [None, None, None, None, Some (Piece Black King), None, None, Some (Piece Black Rook),
      None, None, None, None, None, None, None, None,
      None, None, None, None, None, None, None, None,
      None, None, None, None, None, None, None, None,
      None, None, None, None, None, None, None, None,
      None, None, None, None, None, None, None, None,
      None, None, None, None, None, Some (Piece White Pawn), None, None,
      None, None, None, None, None, None, Some (Piece White King), Some (Piece White Rook)]"

lemma castled_fields [simp]:
  "board castledPosition = castledBoard" "turn castledPosition = White"
  "castling castledPosition = blackShort" "ep castledPosition = None"
  "wKing castledPosition = 62" "bKing castledPosition = 4"
  by (simp_all add: castledPosition_def bare_def)

lemma castled_white: "snd (legalOn castledBoard White blackShort None 62 4 White) = castledBoard"
  by code_simp

lemma castled_white_count: "length (fst (legalOn castledBoard White blackShort None 62 4 White)) = 8"
  by code_simp

lemma castled_black: "snd (legalOn castledBoard White blackShort None 62 4 Black) = rookMovedBoard"
  by code_simp

lemma castled_black_count: "length (fst (legalOn castledBoard White blackShort None 62 4 Black)) = 15"
  by code_simp

lemma moved_white_count: "length (fst (legalOn rookMovedBoard White blackShort None 62 4 White)) = 11"
  by code_simp

lemma moved_white_board: "snd (legalOn rookMovedBoard White blackShort None 62 4 White) = rookMovedBoard"
  by code_simp

lemma castled_material: "material castledBoard White = 140" "material castledBoard Black = - 140"
  by code_simp+

text \<open>
  Claim C9 (the code departs from it). \<open>evaluate\<close> should leave every field of the position
  as it found it. In the position above it does not: \<open>generateLegalMoves\<close> for Black, the side
  not to move, tries Black's king-side castle; \<open>makeMove\<close> and \<open>unmakeMove\<close> choose the rook
  squares by \<open>this.turn\<close>, which is White, so the take-back writes a white rook on h1 and
  clears f1. After \<open>evaluate\<close> the white rook stands on h1 instead of f1.
\<close>

theorem evaluate_moves_the_rook:
  "board (snd (evaluate castledPosition White)) = rookMovedBoard \<and>
   board castledPosition = castledBoard \<and>
   cell castledBoard 61 = Some (Piece White Rook) \<and> cell castledBoard 63 = None \<and>
   cell rookMovedBoard 61 = None \<and> cell rookMovedBoard 63 = Some (Piece White Rook)"
proof -
  have "board (snd (evaluate castledPosition White)) = rookMovedBoard"
    by (simp add: evaluate_on Let_def castled_white castled_black)
  moreover have "cell castledBoard 61 = Some (Piece White Rook)" "cell castledBoard 63 = None"
    "cell rookMovedBoard 61 = None" "cell rookMovedBoard 63 = Some (Piece White Rook)"
    by (simp_all add: cell_def castledBoard_def rookMovedBoard_def)
  ultimately show ?thesis by simp
qed

text \<open>
  Claim C10 (the code departs from it). The evaluation should change sign with the
  perspective. In the same position it scores 126 for White and -132 for Black: with Black
  as the perspective, Black's moves are generated first, the white rook is displaced, and
  White's mobility is then counted on the changed board (11 moves instead of 8).
\<close>

theorem evaluate_not_antisymmetric:
  "fst (evaluate castledPosition White) = 126 \<and> fst (evaluate castledPosition Black) = - 132"
proof -
  have "fst (evaluate castledPosition White) = 126"
    by (simp add: evaluate_on Let_def castled_white castled_white_count castled_black_count
        castled_material clamp_def)
  moreover have "fst (evaluate castledPosition Black) = - 132"
    by (simp add: evaluate_on Let_def castled_black castled_black_count moved_white_count
        castled_material clamp_def)
  ultimately show ?thesis by simp
qed

section \<open>Move ordering\<close>

text \<open>A quiet promotion on b8 and a pawn taking a queen on d5.\<close>

definition quietPromotion :: move where
  "quietPromotion = plain 9 1 (Piece White Pawn) None (Some Queen)"

definition pawnTakesQueen :: move where
  "pawnTakesQueen = plain 36 27 (Piece White Pawn) (Some (Piece Black Queen)) None"

lemma orderScore_examples:
  "orderScore quietPromotion = 900" "orderScore pawnTakesQueen = 8900"
  by (simp_all add: orderScore_def quietPromotion_def pawnTakesQueen_def plain_def valueOf_def
      pieceValue_def)

text \<open>
  Claim C8 as stated fails: promotions do not come before every other move. The weight of a
  promotion, 900, is added to the capture score, and a capture of a knight, bishop, rook or
  queen scores more than 900, so it is ordered before a quiet promotion.
\<close>

theorem orderMoves_promotion_not_first:
  "orderMoves [quietPromotion, pawnTakesQueen] = [pawnTakesQueen, quietPromotion] \<and>
   promotion quietPromotion = Some Queen \<and> promotion pawnTakesQueen = None"
  by (simp add: orderMoves_def orderScore_examples)
     (simp add: quietPromotion_def pawnTakesQueen_def plain_def)

text \<open>
  Claim C8, amended. \<open>orderMoves\<close> returns a permutation of its argument in descending order
  of the ordering score, which is 900 for a promotion plus, for a capture or an en-passant
  move, ten times the value of the captured piece minus the value of the moving piece;
  moves of equal score keep their original relative order. (Quiet moves that do not promote
  score 0.)
\<close>

theorem orderMoves_stable_descending:
  "mset (orderMoves ms) = mset ms \<and>
   sorted_wrt (\<lambda>a b. orderScore a \<ge> orderScore b) (orderMoves ms) \<and>
   (\<forall>k. filter (\<lambda>m. orderScore m = k) (orderMoves ms) = filter (\<lambda>m. orderScore m = k) ms)"
proof -
  have "sorted (map (\<lambda>m. - orderScore m) (orderMoves ms))"
    by (simp add: orderMoves_def)
  then have desc: "sorted_wrt (\<lambda>a b. orderScore a \<ge> orderScore b) (orderMoves ms)"
    by (simp add: sorted_map)
  have stable: "filter (\<lambda>m. orderScore m = k) (orderMoves ms) = filter (\<lambda>m. orderScore m = k) ms" for k
    using sort_key_stable[of "\<lambda>m. - orderScore m" "- k" ms] by (simp add: orderMoves_def)
  have "mset (orderMoves ms) = mset ms" by (simp add: orderMoves_def)
  with desc stable show ?thesis by blast
qed

theorem orderMoves_stable_descending_witness:
  "mset (orderMoves [quietPromotion, pawnTakesQueen]) = mset [quietPromotion, pawnTakesQueen] \<and>
   sorted_wrt (\<lambda>a b. orderScore a \<ge> orderScore b) (orderMoves [quietPromotion, pawnTakesQueen]) \<and>
   filter (\<lambda>m. orderScore m = 900) (orderMoves [quietPromotion, pawnTakesQueen]) = [quietPromotion]"
proof -
  note inst = orderMoves_stable_descending[of "[quietPromotion, pawnTakesQueen]"]
  from inst have "filter (\<lambda>m. orderScore m = 900) (orderMoves [quietPromotion, pawnTakesQueen]) =
      filter (\<lambda>m. orderScore m = 900) [quietPromotion, pawnTakesQueen]" by blast
  then have "filter (\<lambda>m. orderScore m = 900) (orderMoves [quietPromotion, pawnTakesQueen]) = [quietPromotion]"
    by (simp add: orderScore_examples)
  with inst show ?thesis by blast
qed

section \<open>Export and import of position strings\<close>

declare showNat.simps [simp del]

lemma digitChar_table: "\<forall>n \<in> set [0..<10]. digitVal (digitChar n) = Some n"
  by code_simp

lemma digitChar_digit: "n < 10 \<Longrightarrow> digitVal (digitChar n) = Some n"
  using digitChar_table by simp

lemma showNat_digits: "list_all (\<lambda>c. digitVal c \<noteq> None) (showNat n)"
proof (induction n rule: showNat.induct)
  case (1 n)
  show ?case
  proof (cases "n < 10")
    case True
    then show ?thesis by (subst showNat.simps) (simp add: digitChar_digit)
  next
    case False
    have "n mod 10 < 10" by simp
    then have "digitVal (digitChar (n mod 10)) \<noteq> None" by (simp add: digitChar_digit del: mod_less_divisor)
    with False 1 show ?thesis by (subst showNat.simps) simp
  qed
qed

lemma showNat_nonempty: "showNat n \<noteq> []"
  by (subst showNat.simps) simp

definition digitsValue :: "string \<Rightarrow> nat \<Rightarrow> nat" where
  "digitsValue tok a0 = foldl (\<lambda>a c. 10 * a + (case digitVal c of None \<Rightarrow> 0 | Some d \<Rightarrow> d)) a0 tok"

lemma digitsValue_showNat: "digitsValue (showNat n) 0 = n"
proof (induction n rule: showNat.induct)
  case (1 n)
  show ?case
  proof (cases "n < 10")
    case True
    then show ?thesis by (subst showNat.simps) (simp add: digitsValue_def digitChar_digit)
  next
    case False
    have d: "digitVal (digitChar (n mod 10)) = Some (n mod 10)" by (rule digitChar_digit) simp
    from False 1 have "digitsValue (showNat (n div 10)) 0 = n div 10" by simp
    with False d show ?thesis
      by (subst showNat.simps) (simp add: digitsValue_def)
  qed
qed

lemma jsNumber_showNat: "jsNumber (showNat n) = Some n"
  using digitsValue_showNat[of n] showNat_digits[of n] showNat_nonempty[of n]
  by (simp add: jsNumber_def digitsValue_def)

lemma clockOf_showNat: "least \<le> n \<Longrightarrow> clockOf (Some (showNat n)) least = n"
  by (simp add: clockOf_def jsNumber_showNat)

lemma digit_not_space: "digitVal c \<noteq> None \<Longrightarrow> \<not> isSpace c"
  by (auto simp: isSpace_def digitVal_def Let_def)

lemma showNat_no_space: "c \<in> set (showNat n) \<Longrightarrow> \<not> isSpace c"
  using showNat_digits[of n] digit_not_space by (auto simp: list_all_iff)

lemma tokensAcc_word:
  "(\<And>c. c \<in> set w \<Longrightarrow> \<not> isSpace c) \<Longrightarrow> tokensAcc cur (w @ rest) = tokensAcc (rev w @ cur) rest"
  by (induction w arbitrary: cur) simp_all

lemma tokensAcc_field:
  assumes "\<And>c. c \<in> set w \<Longrightarrow> \<not> isSpace c" "w \<noteq> []"
  shows "tokensAcc [] (w @ CHR '' '' # rest) = w # tokensAcc [] rest"
  using assms by (simp add: tokensAcc_word isSpace_def)

lemma tokensAcc_last:
  assumes "\<And>c. c \<in> set w \<Longrightarrow> \<not> isSpace c" "w \<noteq> []"
  shows "tokensAcc [] w = [w]"
  using tokensAcc_word[of w "[]" "[]"] assms by simp

lemma fenFields_six:
  assumes "\<And>c. c \<in> set a \<Longrightarrow> \<not> isSpace c" "a \<noteq> []"
    "\<And>c. c \<in> set b \<Longrightarrow> \<not> isSpace c" "b \<noteq> []"
    "\<And>c. c \<in> set d \<Longrightarrow> \<not> isSpace c" "d \<noteq> []"
    "\<And>c. c \<in> set e \<Longrightarrow> \<not> isSpace c" "e \<noteq> []"
    "\<And>c. c \<in> set f \<Longrightarrow> \<not> isSpace c" "f \<noteq> []"
    "\<And>c. c \<in> set g \<Longrightarrow> \<not> isSpace c" "g \<noteq> []"
  shows "fenFields (a @ '' '' @ b @ '' '' @ d @ '' '' @ e @ '' '' @ f @ '' '' @ g) = [a, b, d, e, f, g]"
proof -
  have "tokensAcc [] (a @ CHR '' '' # b @ CHR '' '' # d @ CHR '' '' # e @ CHR '' '' # f @ CHR '' '' # g)
      = [a, b, d, e, f, g]"
    by (simp only: tokensAcc_field[OF assms(1,2)] tokensAcc_field[OF assms(3,4)]
        tokensAcc_field[OF assms(5,6)] tokensAcc_field[OF assms(7,8)] tokensAcc_field[OF assms(9,10)]
        tokensAcc_last[OF assms(11,12)])
  then show ?thesis by (simp add: fenFields_def)
qed

lemma splitOn_word: "c \<notin> set w \<Longrightarrow> splitOn c w = [w]"
  by (induction w) auto

lemma splitOn_sep: "c \<notin> set w \<Longrightarrow> splitOn c (w @ c # rest) = w # splitOn c rest"
  by (induction w) (auto split: list.splits)

definition kingBefore :: "cells \<Rightarrow> color \<Rightarrow> int \<Rightarrow> bool" where
  "kingBefore B c n = (\<exists>i. 0 \<le> i \<and> i < n \<and> cell B i = Some (Piece c King))"

definition scanInv :: "cells \<Rightarrow> int \<Rightarrow> cells \<Rightarrow> int option \<Rightarrow> int option \<Rightarrow> bool" where
  \<comment> \<open>the state of the parse before square \<open>n\<close> when the string is the export of \<open>B\<close>\<close>
  "scanInv B n b wk bk \<longleftrightarrow>
     length b = 64 \<and> (\<forall>i. cell b i = (if i < n then cell B i else None)) \<and>
     (kingBefore B White n \<longrightarrow> wk \<noteq> None) \<and> (kingBefore B Black n \<longrightarrow> bk \<noteq> None)"

lemma smallDigit_table:
  "\<forall>n \<in> set [1..<9]. showNat n = [digitChar n] \<and> digitChar n \<in> set ''12345678'' \<and>
     digitVal (digitChar n) = Some n"
  by code_simp

lemma smallDigit:
  assumes "1 \<le> n" "n \<le> 8"
  shows "showNat n = [digitChar n]" "digitChar n \<in> set ''12345678''" "digitVal (digitChar n) = Some n"
  using smallDigit_table assms by auto

lemma pieceChar_facts:
  "charPiece (pieceChar p) = Some p" "pieceChar p \<notin> set ''12345678''"
  "pieceChar p = CHR ''K'' \<longleftrightarrow> p = Piece White King"
  "pieceChar p = CHR ''k'' \<longleftrightarrow> p = Piece Black King"
  "pieceChar p \<noteq> CHR ''/''" "\<not> isSpace (pieceChar p)"
proof -
  obtain c t where p: "p = Piece c t" by (cases p)
  show "charPiece (pieceChar p) = Some p" unfolding p by (cases c; cases t) (simp_all add: charPiece_def)
  show "pieceChar p \<notin> set ''12345678''" unfolding p by (cases c; cases t) simp_all
  show "pieceChar p = CHR ''K'' \<longleftrightarrow> p = Piece White King" unfolding p by (cases c; cases t) simp_all
  show "pieceChar p = CHR ''k'' \<longleftrightarrow> p = Piece Black King" unfolding p by (cases c; cases t) simp_all
  show "pieceChar p \<noteq> CHR ''/''" unfolding p by (cases c; cases t) simp_all
  show "\<not> isSpace (pieceChar p)" unfolding p by (cases c; cases t) (simp_all add: isSpace_def)
qed

lemma kingBefore_step:
  "0 \<le> n \<Longrightarrow> kingBefore B c (n + 1) \<longleftrightarrow> kingBefore B c n \<or> cell B n = Some (Piece c King)"
proof -
  assume n: "0 \<le> n"
  have "\<And>i. (0 \<le> i \<and> i < n + 1) = ((0 \<le> i \<and> i < n) \<or> i = n)" using n by auto
  then show ?thesis unfolding kingBefore_def by auto
qed

lemma scanInv_empty:
  assumes "scanInv B n b wk bk" "cell B n = None" "0 \<le> n"
  shows "scanInv B (n + 1) b wk bk"
proof -
  have "\<And>i. (if i < n + 1 then cell B i else None) = (if i < n then cell B i else None)"
    using assms(2) by (auto simp: not_less)
  with assms show ?thesis
    by (simp add: scanInv_def kingBefore_step)
qed

lemma scanInv_piece:
  assumes "scanInv B n b wk bk" "cell B n = Some p" "0 \<le> n" "n < 64"
  shows "scanInv B (n + 1) (put b n (Some p))
           (if pieceChar p = CHR ''K'' then Some n else wk)
           (if pieceChar p = CHR ''k'' then Some n else bk)"
proof -
  from assms(1) have len: "length b = 64" and cells: "\<And>i. cell b i = (if i < n then cell B i else None)"
    by (simp_all add: scanInv_def)
  have c: "\<And>i. cell (put b n (Some p)) i = (if i < n + 1 then cell B i else None)"
    using assms(2,3,4) len cells by (auto simp: cell_put)
  from assms show ?thesis
    unfolding scanInv_def
    by (simp add: c kingBefore_step pieceChar_facts)
qed


lemma parseRow_digit:
  assumes "1 \<le> e" "int e \<le> g" "g \<le> 8"
  shows "parseRow r (showNat e @ rest) (g - int e) b wk bk = parseRow r rest g b wk bk"
proof -
  from assms have e8: "e \<le> 8" by linarith
  have lt: "\<not> g - int e > 7" using assms by linarith
  show ?thesis
    using smallDigit(2)[OF assms(1) e8] lt
    by (simp add: smallDigit(1)[OF assms(1) e8] smallDigit(3)[OF assms(1) e8])
qed

lemma parseRow_pending:
  assumes "int e \<le> g" "g \<le> 8"
  shows "parseRow r ((if e \<noteq> 0 then showNat e else []) @ rest) (g - int e) b wk bk =
         parseRow r rest g b wk bk"
proof (cases "e = 0")
  case True
  then show ?thesis by simp
next
  case False
  then have "1 \<le> e" by simp
  from parseRow_digit[OF this assms] False show ?thesis by simp
qed

lemma parseRow_piece:
  assumes "g \<le> 7"
  shows "parseRow r (pieceChar p # rest) g b wk bk =
         parseRow r rest (g + 1) (put b (r * 8 + g) (Some p))
           (if pieceChar p = CHR ''K'' then Some (r * 8 + g) else wk)
           (if pieceChar p = CHR ''k'' then Some (r * 8 + g) else bk)"
  using assms pieceChar_facts(2)[of p]
  by (simp add: pieceChar_facts(1) Let_def)

lemma parseRow_export:
  assumes "scanInv B (r * 8 + g) b wk bk" "0 \<le> r" "r < 8" "0 \<le> g" "g \<le> 8" "int e \<le> g"
  shows "\<exists>b' wk' bk'.
           parseRow r (encodeRow (map (\<lambda>j. cell B (r * 8 + j)) [g..7]) e) (g - int e) b wk bk =
             (None, 8, b', wk', bk') \<and> scanInv B (r * 8 + 8) b' wk' bk'"
  using assms
proof (induction "nat (8 - g)" arbitrary: g e b wk bk)
  case 0
  then have g: "g = 8" by simp
  have "parseRow r ((if e \<noteq> 0 then showNat e else []) @ []) (g - int e) b wk bk = parseRow r [] g b wk bk"
    by (rule parseRow_pending[OF "0.prems"(6,5)])
  with g "0.prems"(1) show ?case by simp
next
  case (Suc k)
  then have g7: "g \<le> 7" and k: "k = nat (8 - (g + 1))" by linarith+
  have cells: "[g..7] = g # [g + 1..7]" using g7 by (rule upto_rec1)
  have sq: "0 \<le> r * 8 + g" "r * 8 + g < 64" using Suc.prems g7 by auto
  show ?case
  proof (cases "cell B (r * 8 + g)")
    case None
    have inv: "scanInv B (r * 8 + (g + 1)) b wk bk"
      using scanInv_empty[OF Suc.prems(1) None sq(1)] by (simp add: add.assoc)
    have "int (e + 1) \<le> g + 1" using Suc.prems(6) by simp
    from Suc.hyps(1)[OF k inv Suc.prems(2,3) _ _ this] Suc.prems(4) g7
    show ?thesis by (simp add: cells None)
  next
    case (Some p)
    have inv: "scanInv B (r * 8 + (g + 1)) (put b (r * 8 + g) (Some p))
        (if pieceChar p = CHR ''K'' then Some (r * 8 + g) else wk)
        (if pieceChar p = CHR ''k'' then Some (r * 8 + g) else bk)"
      using scanInv_piece[OF Suc.prems(1) Some sq] by (simp add: add.assoc)
    have z: "int (0::nat) \<le> g + 1" using Suc.prems(4) by simp
    from Suc.hyps(1)[OF k inv Suc.prems(2,3) _ _ z] Suc.prems(4) g7
    obtain b' wk' bk' where
      "parseRow r (encodeRow (map (\<lambda>j. cell B (r * 8 + j)) [g + 1..7]) 0) (g + 1)
         (put b (r * 8 + g) (Some p))
         (if pieceChar p = CHR ''K'' then Some (r * 8 + g) else wk)
         (if pieceChar p = CHR ''k'' then Some (r * 8 + g) else bk) = (None, 8, b', wk', bk')"
      "scanInv B (r * 8 + 8) b' wk' bk'"
      by auto
    then show ?thesis
      using Suc.prems(5,6) g7
      by (simp only: cells list.map Some encodeRow.simps parseRow_pending[OF Suc.prems(6,5)]
            parseRow_piece[OF g7]) blast
  qed
qed

lemma parseRows_export:
  assumes "scanInv B (r * 8) b wk bk" "0 \<le> r" "r \<le> 8"
  shows "\<exists>b' wk' bk'.
           parseRows r (map (\<lambda>r. encodeRow (rowCells B r) 0) [r..7]) b wk bk = (None, b', wk', bk') \<and>
           scanInv B 64 b' wk' bk'"
  using assms
proof (induction "nat (8 - r)" arbitrary: r b wk bk)
  case 0
  then have "r = 8" by simp
  with "0.prems"(1) show ?case by simp
next
  case (Suc k)
  then have r7: "r < 8" and k: "k = nat (8 - (r + 1))" by linarith+
  have rows: "[r..7] = r # [r + 1..7]" using r7 by (simp add: upto_rec1)
  have inv0: "scanInv B (r * 8 + 0) b wk bk" using Suc.prems(1) by simp
  from parseRow_export[OF inv0 Suc.prems(2) r7, of 0] obtain b1 wk1 bk1 where
    row: "parseRow r (encodeRow (rowCells B r) 0) 0 b wk bk = (None, 8, b1, wk1, bk1)"
    and inv1: "scanInv B (r * 8 + 8) b1 wk1 bk1"
    by (auto simp: rowCells_def)
  have inv1': "scanInv B ((r + 1) * 8) b1 wk1 bk1" using inv1 by (simp add: algebra_simps)
  from Suc.hyps(1)[OF k inv1'] Suc.prems(2) r7
  show ?case by (simp add: rows row)
qed

lemma scanInv_start: "scanInv B 0 (replicate 64 None) None None"
  by (auto simp: scanInv_def kingBefore_def cell_def)

lemma scanInv_done:
  assumes "scanInv B 64 b wk bk" "length B = 64"
  shows "b = B"
proof (rule cells_eqI)
  from assms show "length b = length B" by (simp add: scanInv_def)
  fix i
  from assms(1) have c: "cell b i = (if i < 64 then cell B i else None)" by (simp add: scanInv_def)
  have "\<not> i < 64 \<Longrightarrow> cell B i = None" using assms(2) by (simp add: cell_def)
  with c show "cell b i = cell B i" by (cases "i < 64") simp_all
qed

definition hasKing :: "cells \<Rightarrow> color \<Rightarrow> bool" where
  "hasKing b c = (\<exists>i. cell b i = Some (Piece c King))"

lemma hasKing_before: "length B = 64 \<Longrightarrow> hasKing B c \<Longrightarrow> kingBefore B c 64"
  by (auto simp: hasKing_def kingBefore_def cell_def split: if_splits)

lemma parse_export:
  assumes "length B = 64" "hasKing B White" "hasKing B Black"
  shows "\<exists>w k. parseRows 0 (map (\<lambda>r. encodeRow (rowCells B r) 0) [0..7]) (replicate 64 None) None None =
           (None, B, Some w, Some k)"
proof -
  have "scanInv B (0 * 8) (replicate 64 None) None None" using scanInv_start by simp
  from parseRows_export[OF this] obtain b' wk' bk' where
    p: "parseRows 0 (map (\<lambda>r. encodeRow (rowCells B r) 0) [0..7]) (replicate 64 None) None None =
          (None, b', wk', bk')" and inv: "scanInv B 64 b' wk' bk'"
    by auto
  from scanInv_done[OF inv assms(1)] have b: "b' = B" .
  from inv hasKing_before[OF assms(1)] assms(2,3) have "wk' \<noteq> None" "bk' \<noteq> None"
    by (auto simp: scanInv_def)
  with p b show ?thesis by auto
qed

lemma digit_not_slash: "digitVal c \<noteq> None \<Longrightarrow> c \<noteq> CHR ''/''"
  by (auto simp: digitVal_def Let_def)

lemma showNat_chars: "c \<in> set (showNat n) \<Longrightarrow> c \<noteq> CHR ''/'' \<and> \<not> isSpace c"
  using showNat_digits[of n] digit_not_slash digit_not_space by (auto simp: list_all_iff)

lemma encodeRow_chars: "c \<in> set (encodeRow cs e) \<Longrightarrow> c \<noteq> CHR ''/'' \<and> \<not> isSpace c"
proof (induction cs e rule: encodeRow.induct)
  case (1 e)
  then show ?case using showNat_chars by (auto split: if_splits)
next
  case (2 cs e)
  then show ?case by simp
next
  case (3 p cs e)
  then show ?case using showNat_chars pieceChar_facts(5,6) by (auto split: if_splits)
qed

lemma encodeRow_nonempty: "0 < e + length cs \<Longrightarrow> encodeRow cs e \<noteq> []"
  by (induction cs e rule: encodeRow.induct) (auto simp: showNat_nonempty)

definition exportRow :: "cells \<Rightarrow> int \<Rightarrow> string" where
  "exportRow b r = encodeRow (rowCells b r) 0"

lemma exportRow_chars: "c \<in> set (exportRow b r) \<Longrightarrow> c \<noteq> CHR ''/'' \<and> \<not> isSpace c"
  unfolding exportRow_def by (rule encodeRow_chars)

lemma exportRow_nonempty: "exportRow b r \<noteq> []"
  unfolding exportRow_def by (rule encodeRow_nonempty) (simp add: rowCells_def)

lemma placement_rows:
  assumes "r \<le> 7"
  shows "splitOn (CHR ''/'') (concat (map (\<lambda>r. exportRow b r @ (if r \<noteq> 7 then ''/'' else [])) [r..7])) =
         map (exportRow b) [r..7]"
  using assms
proof (induction "nat (7 - r)" arbitrary: r)
  case 0
  then have "r = 7" by simp
  moreover have "CHR ''/'' \<notin> set (exportRow b 7)" using exportRow_chars by blast
  ultimately show ?case by (simp add: splitOn_word)
next
  case (Suc k)
  then have r6: "r < 7" and k: "k = nat (7 - (r + 1))" by linarith+
  have rows: "[r..7] = r # [r + 1..7]" using r6 by (simp add: upto_rec1)
  have ns: "CHR ''/'' \<notin> set (exportRow b r)" using exportRow_chars by blast
  from Suc.hyps(1)[OF k] r6 have
    "splitOn (CHR ''/'') (concat (map (\<lambda>r. exportRow b r @ (if r \<noteq> 7 then ''/'' else [])) [r + 1..7])) =
       map (exportRow b) [r + 1..7]" by simp
  with r6 ns show ?case by (simp add: rows splitOn_sep)
qed

lemma placementOf_rows: "splitOn (CHR ''/'') (placementOf b) = map (exportRow b) [0..7]"
  using placement_rows[of 0 b] by (simp add: placementOf_def exportRow_def)

lemma placementOf_chars: "c \<in> set (placementOf b) \<Longrightarrow> \<not> isSpace c"
  using encodeRow_chars by (auto simp: placementOf_def isSpace_def split: if_splits)

lemma placementOf_nonempty: "placementOf b \<noteq> []"
proof -
  have "[0..7] = 0 # [1..7]" by (simp add: upto_rec1)
  then show ?thesis using exportRow_nonempty[of b 0] by (simp add: placementOf_def exportRow_def)
qed

lemma turnString_facts:
  "turnString c \<noteq> []" "ch \<in> set (turnString c) \<Longrightarrow> \<not> isSpace ch"
  "turnString c = ''w'' \<longleftrightarrow> c = White" "turnString c = ''w'' \<or> turnString c = ''b''"
  by (cases c; simp add: turnString_def isSpace_def)+

lemma castlingString_facts:
  "castlingString r \<noteq> []" "ch \<in> set (castlingString r) \<Longrightarrow> \<not> isSpace ch"
  by (auto simp: castlingString_def Let_def isSpace_def split: if_splits)

lemma rights_eqI: "cK r = cK r' \<Longrightarrow> cQ r = cQ r' \<Longrightarrow> ck r = ck r' \<Longrightarrow> cq r = cq r' \<Longrightarrow> r = (r' :: rights)"
  by (cases r; cases r') simp

lemma castlingString_parse:
  "(if castlingString r \<noteq> ''-'' then parseCastling (castlingString r) noCastling else (False, noCastling)) =
     (False, r)"
proof -
  have r: "r = \<lparr>cK = cK r, cQ = cQ r, ck = ck r, cq = cq r\<rparr>" by simp
  show ?thesis
    by (subst (3) r, cases "cK r"; cases "cQ r"; cases "ck r"; cases "cq r")
       (simp_all add: castlingString_def noCastling_def)
qed

lemma square_table:
  "\<forall>e \<in> set [0..63]. squareToIndex (indexToSquare e) = Some e \<and> indexToSquare e \<noteq> ''-'' \<and>
     indexToSquare e \<noteq> [] \<and> list_all (\<lambda>c. \<not> isSpace c) (indexToSquare e)"
  by code_simp

lemma square_facts:
  assumes "onBoard e"
  shows "squareToIndex (indexToSquare e) = Some e" "indexToSquare e \<noteq> ''-''" "indexToSquare e \<noteq> []"
    "ch \<in> set (indexToSquare e) \<Longrightarrow> \<not> isSpace ch"
proof -
  from assms have "e \<in> set [0..63]" by (simp add: onBoard_def)
  with square_table have t: "squareToIndex (indexToSquare e) = Some e \<and> indexToSquare e \<noteq> ''-'' \<and>
     indexToSquare e \<noteq> [] \<and> list_all (\<lambda>c. \<not> isSpace c) (indexToSquare e)" by blast
  then show "squareToIndex (indexToSquare e) = Some e" "indexToSquare e \<noteq> ''-''" "indexToSquare e \<noteq> []"
    by simp_all
  from t show "ch \<in> set (indexToSquare e) \<Longrightarrow> \<not> isSpace ch" by (simp add: list_all_iff)
qed

definition epString :: "int option \<Rightarrow> string" where
  "epString e = (case e of None \<Rightarrow> ''-'' | Some q \<Rightarrow> indexToSquare q)"

definition epOnBoard :: "int option \<Rightarrow> bool" where
  "epOnBoard e = (case e of None \<Rightarrow> True | Some q \<Rightarrow> onBoard q)"

lemma epString_facts:
  assumes "epOnBoard e"
  shows "epString e \<noteq> []" "ch \<in> set (epString e) \<Longrightarrow> \<not> isSpace ch"
    "epString e = ''-'' \<longleftrightarrow> e = None" "e \<noteq> None \<Longrightarrow> squareToIndex (epString e) = e"
  using assms square_facts
  by (auto simp: epString_def epOnBoard_def isSpace_def split: option.splits)

definition exportable :: "position \<Rightarrow> bool" where
  \<comment> \<open>what a position reached in play has, as far as the export and the import read it\<close>
  "exportable s \<longleftrightarrow>
     length (board s) = 64 \<and> hasKing (board s) White \<and> hasKing (board s) Black \<and>
     epOnBoard (ep s) \<and> 1 \<le> fullmove s \<and> halfmove s < 2 ^ 53 \<and> fullmove s < 2 ^ 53"

definition exportFields :: "position \<Rightarrow> string list" where
  "exportFields s =
     [placementOf (board s), turnString (turn s), castlingString (castling s), epString (ep s),
      showNat (halfmove s), showNat (fullmove s)]"

lemma toFEN_fields:
  assumes "epOnBoard (ep s)"
  shows "fenFields (toFEN s) = exportFields s"
proof -
  have "toFEN s = placementOf (board s) @ '' '' @ turnString (turn s) @ '' '' @
      castlingString (castling s) @ '' '' @ epString (ep s) @ '' '' @ showNat (halfmove s) @ '' '' @
      showNat (fullmove s)"
    by (simp add: toFEN_def epString_def)
  also have "fenFields \<dots> = exportFields s"
    unfolding exportFields_def
    by (rule fenFields_six)
       (simp_all add: placementOf_chars placementOf_nonempty turnString_facts castlingString_facts
          epString_facts[OF assms] showNat_no_space showNat_nonempty)
  finally show ?thesis .
qed

lemma loadTail_export:
  assumes "epOnBoard (ep s)"
  shows "loadTail (exportFields s) w k s1 =
           (None, finishLoad (exportFields s) w k
                    (s1\<lparr>turn := turn s, castling := castling s, ep := ep s\<rparr>))"
proof -
  have t: "(if turnString (turn s) = ''w'' then White else Black) = turn s"
    by (cases "turn s") (simp_all add: turnString_def)
  have tt: "\<not> (turnString (turn s) \<noteq> ''w'' \<and> turnString (turn s) \<noteq> ''b'')"
    using turnString_facts(4) by blast
  show ?thesis
  proof (cases "ep s")
    case None
    then have "epString (ep s) = ''-''" by (simp add: epString_def)
    with None show ?thesis
      by (simp add: loadTail_def exportFields_def Let_def t tt castlingString_parse
            del: parseCastling.simps)
  next
    case (Some e)
    with epString_facts[OF assms] have "epString (ep s) \<noteq> ''-''" "squareToIndex (epString (ep s)) = Some e"
      by auto
    with Some show ?thesis
      by (simp add: loadTail_def exportFields_def Let_def t tt castlingString_parse
            del: parseCastling.simps)
  qed
qed

lemma loadFEN_export:
  assumes "exportable s" "length (board s0) = 64"
  shows "\<exists>w k. loadFEN (toFEN s) s0 =
           (None, finishLoad (exportFields s) w k
                    (s0\<lparr>board := board s, turn := turn s, castling := castling s, ep := ep s\<rparr>))"
proof -
  from assms(1) have len: "length (board s) = 64" and kw: "hasKing (board s) White"
    and kb: "hasKing (board s) Black" and e: "epOnBoard (ep s)"
    by (simp_all add: exportable_def)
  have f: "fenFields (toFEN s) = exportFields s" by (rule toFEN_fields[OF e])
  have rows: "splitOn (CHR ''/'') (exportFields s ! 0) = map (exportRow (board s)) [0..7]"
    by (simp add: exportFields_def placementOf_rows)
  have l8: "length (map (exportRow (board s)) [0..7]) = 8" by simp
  have clr: "map (\<lambda>_. None) (board s0) = replicate 64 None"
    using assms(2) by (simp add: map_replicate_const)
  from parse_export[OF len kw kb] obtain w k where
    p: "parseRows 0 (map (exportRow (board s)) [0..7]) (replicate 64 None) None None =
          (None, board s, Some w, Some k)"
    unfolding exportRow_def by blast
  have l6: "\<not> length (exportFields s) < 4" by (simp add: exportFields_def)
  have "loadFEN (toFEN s) s0 = loadTail (exportFields s) w k (s0\<lparr>board := board s\<rparr>)"
    unfolding loadFEN_def f Let_def rows
    by (simp only: l6 l8 clr p if_False if_True not_False_eq_True prod.case option.case simp_thms)
  with loadTail_export[OF e] show ?thesis by auto
qed

text \<open>
  The string \<open>kR6/8/8/8/8/8/8/K7 w - - 0 1\<close> is accepted by \<open>loadFEN\<close>: White is to move
  with the black king attacked by the rook on b8, and Rb8xa8 is among the moves that
  \<open>generateLegalMoves\<close> returns.
\<close>

definition hangingKingBoard :: cells where
  "hangingKingBoard =
     put (put (put (replicate 64 None) 0 (Some (Piece Black King))) 1 (Some (Piece White Rook)))
       56 (Some (Piece White King))"

definition hangingKing :: position where
  "hangingKing = finishLoad [] 56 0 (bare hangingKingBoard White noCastling None 0 0)"

definition rookTakesKing :: move where
  "rookTakesKing = plain 1 0 (Piece White Rook) (Some (Piece Black King)) None"

definition kingTaken :: position where
  "kingTaken = snd (makeMove rookTakesKing True hangingKing)"

lemma hangingKing_fields [simp]:
  "board hangingKing = hangingKingBoard" "turn hangingKing = White" "castling hangingKing = noCastling"
  "ep hangingKing = None" "wKing hangingKing = 56" "bKing hangingKing = 0"
  "halfmove hangingKing = 0" "fullmove hangingKing = 1"
  by (simp_all add: hangingKing_def bare_def clockOf_def nthField_def)

lemma hangingKingFen_fields:
  "fenFields ''kR6/8/8/8/8/8/8/K7 w - - 0 1'' = [''kR6/8/8/8/8/8/8/K7'', ''w'', ''-'', ''-'', ''0'', ''1'']"
  by code_simp

lemma hangingKingFen_rows:
  "splitOn (CHR ''/'') ''kR6/8/8/8/8/8/8/K7'' = [''kR6'', ''8'', ''8'', ''8'', ''8'', ''8'', ''8'', ''K7'']"
  by code_simp

lemma hangingKingFen_parse:
  "parseRows 0 [''kR6'', ''8'', ''8'', ''8'', ''8'', ''8'', ''8'', ''K7'']
     (replicate 64 None) None None = (None, hangingKingBoard, Some 56, Some 0)"
  by code_simp

lemma loadFEN_hangingKing:
  assumes "length (board s) = 64"
  shows "loadFEN ''kR6/8/8/8/8/8/8/K7 w - - 0 1'' s = (None, hangingKing)"
proof -
  have "loadFEN ''kR6/8/8/8/8/8/8/K7 w - - 0 1'' s =
      loadTail [''kR6/8/8/8/8/8/8/K7'', ''w'', ''-'', ''-'', ''0'', ''1''] 56 0
        (s\<lparr>board := hangingKingBoard\<rparr>)"
    by (rule loadFEN_parts[OF hangingKingFen_fields hangingKingFen_rows _ assms hangingKingFen_parse]) simp
  also have "\<dots> = (None, finishLoad [''kR6/8/8/8/8/8/8/K7'', ''w'', ''-'', ''-'', ''0'', ''1''] 56 0
         (s\<lparr>board := hangingKingBoard, turn := White, castling := noCastling, ep := None\<rparr>))"
    by (simp add: loadTail_def Let_def)
  also have "finishLoad [''kR6/8/8/8/8/8/8/K7'', ''w'', ''-'', ''-'', ''0'', ''1''] 56 0
         (s\<lparr>board := hangingKingBoard, turn := White, castling := noCastling, ep := None\<rparr>) = hangingKing"
    unfolding hangingKing_def
    by (rule finishLoad_cong) (simp_all add: bare_def clockOf_def nthField_def jsNumber_def)
  finally show ?thesis .
qed

lemma rookTakesKing_legal:
  "rookTakesKing \<in> set (fst (legalOn hangingKingBoard White noCastling None 56 0 White))"
  by code_simp

lemma toFEN_cong:
  assumes "board s = board s'" "turn s = turn s'" "castling s = castling s'" "ep s = ep s'"
    "halfmove s = halfmove s'" "fullmove s = fullmove s'"
  shows "toFEN s = toFEN s'"
  by (simp add: toFEN_def assms)

lemma kingTaken_rights: "updateCastlingRightsAfterMove 1 0 (Piece White Rook) (Some (Piece Black King)) noCastling = noCastling"
  by (simp add: updateCastlingRightsAfterMove_def noCastling_def)

lemma kingTaken_bare:
  "toFEN (bare (boardAfterMake rookTakesKing White hangingKingBoard) Black noCastling None 56 0) =
     ''R7/8/8/8/8/8/8/K7 b - - 0 1''"
  by code_simp

lemma kingTaken_export: "toFEN (snd (makeMove rookTakesKing True hangingKing)) = ''R7/8/8/8/8/8/8/K7 b - - 0 1''"
proof -
  have cap: "capturedNow hangingKingBoard rookTakesKing = Some (Piece Black King)"
    by (simp add: capturedNow_def captureSquare_def rookTakesKing_def plain_def hangingKingBoard_def cell_put)
  have "toFEN (snd (makeMove rookTakesKing True hangingKing)) =
      toFEN (bare (boardAfterMake rookTakesKing White hangingKingBoard) Black noCastling None 56 0)"
    by (rule toFEN_cong)
       (simp_all add: bare_def cap epAfter_def, simp_all add: rookTakesKing_def plain_def kingTaken_rights)
  then show ?thesis by (simp only: kingTaken_bare)
qed

lemma kingTakenFen_fields:
  "fenFields ''R7/8/8/8/8/8/8/K7 b - - 0 1'' = [''R7/8/8/8/8/8/8/K7'', ''b'', ''-'', ''-'', ''0'', ''1'']"
  by code_simp

lemma kingTakenFen_rows:
  "splitOn (CHR ''/'') ''R7/8/8/8/8/8/8/K7'' = [''R7'', ''8'', ''8'', ''8'', ''8'', ''8'', ''8'', ''K7'']"
  by code_simp

lemma kingTakenFen_parse:
  "parseRows 0 [''R7'', ''8'', ''8'', ''8'', ''8'', ''8'', ''8'', ''K7'']
     (replicate 64 None) None None =
     (None, put (put (replicate 64 None) 0 (Some (Piece White Rook))) 56 (Some (Piece White King)), Some 56, None)"
  by code_simp

lemma loadFEN_kingTaken:
  assumes "length (board s) = 64"
  shows "fst (loadFEN ''R7/8/8/8/8/8/8/K7 b - - 0 1'' s) = Some MissingKing"
proof -
  have clr: "map (\<lambda>_. None) (board s) = replicate 64 None"
    using assms by (simp add: map_replicate_const)
  show ?thesis
    by (simp add: loadFEN_def kingTakenFen_fields kingTakenFen_rows clr kingTakenFen_parse
          del: parseRows.simps)
qed

text \<open>
  Claim C6 as stated fails on a position that the engine reaches from an accepted string by
  a move of its own legal-move list: after Rb8xa8 there is no black king on the board, the
  export is \<open>R7/8/8/8/8/8/8/K7 b - - 0 1\<close>, and \<open>loadFEN\<close> refuses it for the missing king.
\<close>

theorem fen_round_trip_fails:
  "loadFEN ''kR6/8/8/8/8/8/8/K7 w - - 0 1'' kingsPosition = (None, hangingKing) \<and>
   rookTakesKing \<in> set (legalMoves hangingKing (turn hangingKing)) \<and>
   toFEN (snd (makeMove rookTakesKing True hangingKing)) = ''R7/8/8/8/8/8/8/K7 b - - 0 1'' \<and>
   fst (loadFEN (toFEN (snd (makeMove rookTakesKing True hangingKing))) kingsPosition) = Some MissingKing"
proof -
  have len: "length (board kingsPosition) = 64" by (simp add: kingsBoard_def)
  have lg: "rookTakesKing \<in> set (legalMoves hangingKing (turn hangingKing))"
    using rookTakesKing_legal by (simp add: legalMoves_def generateLegalMoves_on)
  from loadFEN_hangingKing[OF len] lg loadFEN_kingTaken[OF len] show ?thesis
    by (simp only: kingTaken_export simp_thms)
qed

text \<open>
  Claim C6, amended. For every position with both kings on a board of 64 squares, an
  en-passant target that is absent or on the board, a fullmove number of at least 1 and
  clocks below \<open>2^53\<close>: \<open>loadFEN\<close> accepts the string that \<open>toFEN\<close> exports, whatever the engine
  held before, the position it leaves has the same board, side to move, castling rights,
  en-passant target and clocks, and its export is the same string.
\<close>

theorem fen_round_trip:
  assumes "exportable s" and "length (board s0) = 64"
  shows "fst (loadFEN (toFEN s) s0) = None \<and>
         toFEN (snd (loadFEN (toFEN s) s0)) = toFEN s \<and>
         board (snd (loadFEN (toFEN s) s0)) = board s \<and>
         turn (snd (loadFEN (toFEN s) s0)) = turn s \<and>
         castling (snd (loadFEN (toFEN s) s0)) = castling s \<and>
         ep (snd (loadFEN (toFEN s) s0)) = ep s \<and>
         halfmove (snd (loadFEN (toFEN s) s0)) = halfmove s \<and>
         fullmove (snd (loadFEN (toFEN s) s0)) = fullmove s"
proof -
  from loadFEN_export[OF assms] obtain w k where
    ld: "loadFEN (toFEN s) s0 =
           (None, finishLoad (exportFields s) w k
                    (s0\<lparr>board := board s, turn := turn s, castling := castling s, ep := ep s\<rparr>))"
    by blast
  from assms(1) have fm: "1 \<le> fullmove s" by (simp add: exportable_def)
  have h: "clockOf (nthField (exportFields s) 4) 0 = halfmove s"
    by (simp add: nthField_def exportFields_def clockOf_showNat)
  have g: "clockOf (nthField (exportFields s) 5) 1 = fullmove s"
    using fm by (simp add: nthField_def exportFields_def clockOf_showNat del: One_nat_def)
  show ?thesis
    unfolding ld by (simp add: toFEN_def h g del: One_nat_def)
qed

text \<open>The position after 1.e4, with all four castling rights and the en-passant target e3.\<close>

definition afterE4Board :: cells where
  "afterE4Board =
     map Some [Piece Black Rook, Piece Black Knight, Piece Black Bishop, Piece Black Queen,
               Piece Black King, Piece Black Bishop, Piece Black Knight, Piece Black Rook] @
     replicate 8 (Some (Piece Black Pawn)) @ replicate 16 None @
     [None, None, None, None, Some (Piece White Pawn), None, None, None] @ replicate 8 None @
     map Some [Piece White Pawn, Piece White Pawn, Piece White Pawn, Piece White Pawn] @ [None] @
     map Some [Piece White Pawn, Piece White Pawn, Piece White Pawn] @
     map Some [Piece White Rook, Piece White Knight, Piece White Bishop, Piece White Queen,
               Piece White King, Piece White Bishop, Piece White Knight, Piece White Rook]"

definition allRights :: rights where
  "allRights = \<lparr>cK = True, cQ = True, ck = True, cq = True\<rparr>"

definition afterE4 :: position where
  "afterE4 = finishLoad [] 60 4 (bare afterE4Board Black allRights (Some 44) 0 0)"

lemma afterE4_bare:
  "toFEN (bare afterE4Board Black allRights (Some 44) 0 0) =
     ''rnbqkbnr/pppppppp/8/8/4P3/8/PPPP1PPP/RNBQKBNR b KQkq e3 0 1''"
  by code_simp

lemma afterE4_export: "toFEN afterE4 = ''rnbqkbnr/pppppppp/8/8/4P3/8/PPPP1PPP/RNBQKBNR b KQkq e3 0 1''"
proof -
  have "toFEN afterE4 = toFEN (bare afterE4Board Black allRights (Some 44) 0 0)"
    by (rule toFEN_cong) (simp_all add: afterE4_def bare_def clockOf_def nthField_def)
  then show ?thesis by (simp only: afterE4_bare)
qed

lemma afterE4_kings: "cell afterE4Board 60 = Some (Piece White King)" "cell afterE4Board 4 = Some (Piece Black King)"
  by code_simp+

lemma afterE4_exportable: "exportable afterE4"
proof -
  have "hasKing afterE4Board White" "hasKing afterE4Board Black"
    unfolding hasKing_def using afterE4_kings by blast+
  then show ?thesis
    by (simp add: exportable_def afterE4_def bare_def epOnBoard_def onBoard_def clockOf_def
          nthField_def afterE4Board_def)
qed

theorem fen_round_trip_witness:
  "exportable afterE4 \<and> length (board kingsPosition) = 64 \<and>
   toFEN afterE4 = ''rnbqkbnr/pppppppp/8/8/4P3/8/PPPP1PPP/RNBQKBNR b KQkq e3 0 1'' \<and>
   fst (loadFEN (toFEN afterE4) kingsPosition) = None \<and>
   toFEN (snd (loadFEN (toFEN afterE4) kingsPosition)) = toFEN afterE4 \<and>
   board (snd (loadFEN (toFEN afterE4) kingsPosition)) = board afterE4 \<and>
   ep (snd (loadFEN (toFEN afterE4) kingsPosition)) = Some 44"
proof -
  have len: "length (board kingsPosition) = 64" by (simp add: kingsBoard_def)
  have e: "ep afterE4 = Some 44" by (simp add: afterE4_def bare_def)
  from fen_round_trip[OF afterE4_exportable len] afterE4_exportable len afterE4_export e
  show ?thesis by simp
qed

end
